theory Spec2Isabelle
  imports Main "HOL-Library.Sublist"
begin

unbundle bit_operations_syntax

section \<open>The AT response parser (at\_parser.c)\<close>

subsection \<open>Data model\<close>

text \<open>
  Bytes are \<^typ>\<open>char\<close>; a line or a payload is a \<^typ>\<open>string\<close>. The three bytes the
  parser treats specially:
\<close>

definition CR :: char where "CR = CHR 0x0D"
definition LF :: char where "LF = CHR 0x0A"
definition NUL :: char where "NUL = CHR 0x00"

datatype at_parser_state =
  STATE_IDLE | STATE_READLINE | STATE_DATAPROMPT | STATE_RAWDATA | STATE_HEXDATA

text \<open>
  Modelled from the spec: \<open>enum at_response_type\<close> is declared in at\_parser.h, which is not
  among the sources. The spec fixes that the value is an integer whose low byte is the
  category and whose upper bytes carry the payload length of \<open>RAWDATA_FOLLOWS\<close> and
  \<open>HEXDATA_FOLLOWS\<close>, and that \<open>UNKNOWN\<close> is zero. The other categories are distinct
  values of the low byte, none of them zero; they are numbered here as consecutive
  enumerators are. An enumerator whose name begins with an underscore in the code is
  written without it, and with a prime where the macro of the code has that name.
\<close>

type_synonym at_response_type = int

definition AT_RESPONSE_UNKNOWN :: at_response_type where "AT_RESPONSE_UNKNOWN = 0"
definition AT_RESPONSE_INTERMEDIATE :: at_response_type where "AT_RESPONSE_INTERMEDIATE = 1"
definition AT_RESPONSE_FINAL_OK :: at_response_type where "AT_RESPONSE_FINAL_OK = 2"
definition AT_RESPONSE_FINAL :: at_response_type where "AT_RESPONSE_FINAL = 3"
definition AT_RESPONSE_URC :: at_response_type where "AT_RESPONSE_URC = 4"
definition AT_RESPONSE_RAWDATA_FOLLOWS' :: at_response_type where "AT_RESPONSE_RAWDATA_FOLLOWS' = 5"
definition AT_RESPONSE_HEXDATA_FOLLOWS' :: at_response_type where "AT_RESPONSE_HEXDATA_FOLLOWS' = 6"
definition AT_RESPONSE_TYPE_MASK :: at_response_type where "AT_RESPONSE_TYPE_MASK = 0xff"

definition AT_RESPONSE_RAWDATA_FOLLOWS :: "int \<Rightarrow> at_response_type" where
  "AT_RESPONSE_RAWDATA_FOLLOWS amount = AT_RESPONSE_RAWDATA_FOLLOWS' OR push_bit 8 amount"

definition AT_RESPONSE_HEXDATA_FOLLOWS :: "int \<Rightarrow> at_response_type" where
  "AT_RESPONSE_HEXDATA_FOLLOWS amount = AT_RESPONSE_HEXDATA_FOLLOWS' OR push_bit 8 amount"

text \<open>
  A line scanner receives the line (its \<open>len\<close> bytes) and returns a response type. The
  context pointer it also receives is opaque; scanners are functions of the line.
\<close>

type_synonym line_scanner_t = "string \<Rightarrow> at_response_type"

text \<open>
  \<open>handle_response\<close> and \<open>handle_urc\<close> are code of the caller. What the parser does with
  them is call them: each invocation of a callback is recorded, with the bytes it is given
  and with the cursors \<open>(buf_current, buf_used)\<close> of the parser at that moment.
\<close>

datatype callback =
    Per_command_scanner string
  | Scan_line string
  | Handle_urc string
  | Handle_response string

record at_parser_callbacks =
  scan_line :: "line_scanner_t option"

record at_parser =
  cbs :: at_parser_callbacks
  priv :: nat
  per_command_scanner :: "line_scanner_t option"
  state :: at_parser_state
  data_left :: nat
  nibble :: int
  buf :: "nat \<Rightarrow> char"
  buf_used :: nat
  buf_size :: nat
  buf_current :: nat
  calls :: "(callback \<times> nat \<times> nat) list"

text \<open>
  \<open>size_t\<close> is unsigned: \<open>buf_size - 1\<close> wraps at \<open>buf_size = 0\<close>, and a negative \<open>int\<close>
  stored in \<open>data_left\<close> wraps too. The width is that of a 32-bit target.
\<close>

definition size_t_of_int :: "int \<Rightarrow> nat" where
  "size_t_of_int i = nat (i mod 2 ^ 32)"

definition invoke :: "callback \<Rightarrow> at_parser \<Rightarrow> at_parser" where
  "invoke c parser = parser\<lparr>calls := calls parser @ [(c, buf_current parser, buf_used parser)]\<rparr>"

definition buf_bytes :: "at_parser \<Rightarrow> nat \<Rightarrow> nat \<Rightarrow> string" where
  "buf_bytes parser i j = map (buf parser) [i..<j]"

subsection \<open>Allocation, reset, arming\<close>

definition at_parser_reset :: "at_parser \<Rightarrow> at_parser" where
  "at_parser_reset parser =
     parser\<lparr>state := STATE_IDLE, per_command_scanner := None,
            buf_used := 0, buf_current := 0, data_left := 0\<rparr>"

datatype errno = ENOMEM

text \<open>
  The two results of \<open>malloc\<close> are inputs: \<open>None\<close> is the null pointer, \<open>Some\<close> carries the
  block as it comes, uninitialised. No callback has been invoked on a new parser.
\<close>

definition at_parser_alloc ::
  "at_parser_callbacks \<Rightarrow> nat \<Rightarrow> nat \<Rightarrow> at_parser option \<Rightarrow> (nat \<Rightarrow> char) option
     \<Rightarrow> errno + at_parser" where
  "at_parser_alloc cbs' bufsize priv' malloc_parser malloc_buf =
     (case malloc_parser of
        None \<Rightarrow> Inl ENOMEM
      | Some parser \<Rightarrow>
          (case malloc_buf of
             None \<Rightarrow> Inl ENOMEM
           | Some block \<Rightarrow>
               Inr (at_parser_reset
                 (parser\<lparr>buf := block, cbs := cbs', buf_size := bufsize, priv := priv',
                         calls := []\<rparr>))))"

definition at_parser_await_response ::
  "at_parser \<Rightarrow> bool \<Rightarrow> line_scanner_t option \<Rightarrow> at_parser" where
  "at_parser_await_response parser dataprompt scanner =
     parser\<lparr>per_command_scanner := scanner,
            state := (if dataprompt then STATE_DATAPROMPT else STATE_READLINE)\<rparr>"

subsection \<open>The generic scanner\<close>

definition ok_responses :: "string list" where
  "ok_responses = [''OK'', ''> '']"

definition error_responses :: "string list" where
  "error_responses = [''ERROR'', ''NO CARRIER'', ''+CME ERROR:'', ''+CMS ERROR:'']"

definition urc_responses :: "string list" where
  "urc_responses = [''RING'']"

text \<open>
  A C string ends at its first NUL. The line handed to the scanners lies in the buffer
  with a NUL written behind it, so as a C string it is the line up to its first NUL byte.
\<close>

definition c_str :: "string \<Rightarrow> string" where
  "c_str s = takeWhile (\<lambda>c. c \<noteq> NUL) s"

text \<open>
  \<open>strncmp\<close> on two C strings given without their terminators; the end of a list is the
  NUL. Bytes compare as unsigned.
\<close>

fun strncmp :: "string \<Rightarrow> string \<Rightarrow> nat \<Rightarrow> int" where
  "strncmp s1 s2 0 = 0"
| "strncmp [] [] (Suc n) = 0"
| "strncmp [] (y # ys) (Suc n) = - 1"
| "strncmp (x # xs) [] (Suc n) = 1"
| "strncmp (x # xs) (y # ys) (Suc n) =
     (if x = y then strncmp xs ys n
      else if (of_char x :: nat) < of_char y then - 1 else 1)"

fun at_prefix_in_table :: "string \<Rightarrow> string list \<Rightarrow> bool" where
  "at_prefix_in_table line [] = False"
| "at_prefix_in_table line (t # table) =
     (if strncmp (c_str line) t (length t) = 0 then True
      else at_prefix_in_table line table)"

definition generic_line_scanner :: "string \<Rightarrow> at_response_type" where
  "generic_line_scanner line =
     (if at_prefix_in_table line urc_responses then AT_RESPONSE_URC
      else if at_prefix_in_table line error_responses then AT_RESPONSE_FINAL
      else if at_prefix_in_table line ok_responses then AT_RESPONSE_FINAL_OK
      else AT_RESPONSE_INTERMEDIATE)"

subsection \<open>Collecting lines\<close>

definition parser_append :: "at_parser \<Rightarrow> char \<Rightarrow> at_parser" where
  "parser_append parser ch =
     (if buf_used parser < size_t_of_int (int (buf_size parser) - 1)
      then parser\<lparr>buf := (buf parser)(buf_used parser := ch),
                  buf_used := buf_used parser + 1\<rparr>
      else parser)"

text \<open>
  The part of \<open>parser_handle_line\<close> that determines the response type: the per-command
  scanner if there is one, then \<open>scan_line\<close> of the callbacks if the type is still zero,
  then the generic scanner if it is still zero.
\<close>

definition response_type :: "at_parser \<Rightarrow> string \<Rightarrow> at_response_type \<times> at_parser" where
  "response_type parser line =
     (let type = AT_RESPONSE_UNKNOWN;
          (type, parser) =
            (case per_command_scanner parser of
               Some scanner \<Rightarrow> (scanner line, invoke (Per_command_scanner line) parser)
             | None \<Rightarrow> (type, parser));
          (type, parser) =
            (if type = 0 then
               (case scan_line (cbs parser) of
                  Some scanner \<Rightarrow> (scanner line, invoke (Scan_line line) parser)
                | None \<Rightarrow> (type, parser))
             else (type, parser));
          type = (if type = 0 then generic_line_scanner line else type)
      in (type, parser))"

definition discard_line :: "at_parser \<Rightarrow> at_parser" where
  "discard_line parser =
     (let parser = (if buf_current parser > 0
                    then parser\<lparr>buf_current := buf_current parser - 1\<rparr> else parser)
      in parser\<lparr>buf_used := buf_current parser\<rparr>)"

definition parser_handle_line :: "at_parser \<Rightarrow> at_parser" where
  "parser_handle_line parser =
     (if buf_used parser = buf_current parser then parser
      else
        let parser = parser\<lparr>buf := (buf parser)(buf_used parser := NUL)\<rparr>;
            line = buf_bytes parser (buf_current parser) (buf_used parser);
            (type, parser) = response_type parser line
        in
          if type = AT_RESPONSE_URC \<or> state parser = STATE_IDLE then
            discard_line (invoke (Handle_urc line) parser)
          else
            let parser =
                  (if type \<noteq> AT_RESPONSE_FINAL_OK
                   then parser\<lparr>buf_current := buf_used parser\<rparr>
                   else (let parser = discard_line parser
                         in parser\<lparr>buf := (buf parser)(buf_used parser := NUL)\<rparr>));
                category = type AND AT_RESPONSE_TYPE_MASK
            in
              if category = AT_RESPONSE_FINAL_OK \<or> category = AT_RESPONSE_FINAL then
                at_parser_reset
                  (invoke (Handle_response (buf_bytes parser 0 (buf_used parser))) parser)
              else if category = AT_RESPONSE_RAWDATA_FOLLOWS' then
                parser\<lparr>data_left := size_t_of_int (drop_bit 8 type), state := STATE_RAWDATA\<rparr>
              else if category = AT_RESPONSE_HEXDATA_FOLLOWS' then
                parser\<lparr>data_left := size_t_of_int (drop_bit 8 type), nibble := - 1,
                       state := STATE_HEXDATA\<rparr>
              else parser)"

subsection \<open>Feeding bytes\<close>

definition memcmp_buf :: "at_parser \<Rightarrow> string \<Rightarrow> nat \<Rightarrow> bool" where
  "memcmp_buf parser s n = (buf_bytes parser 0 n = take n s)"

text \<open>One pass of the loop body in the states IDLE, READLINE and DATAPROMPT, on the byte read.\<close>

definition feed_line_byte :: "at_parser \<Rightarrow> char \<Rightarrow> at_parser" where
  "feed_line_byte parser ch =
     (let parser =
            (if ch \<noteq> CR \<and> ch \<noteq> LF then
               let parser =
                     (if buf_used parser > 0 \<and> buf_current parser = buf_used parser
                      then (let parser = parser_append parser LF
                            in parser\<lparr>buf_current := buf_used parser\<rparr>)
                      else parser)
               in parser_append parser ch
             else parser)
      in if ch = LF \<or>
            (state parser = STATE_DATAPROMPT \<and> buf_used parser = 2 \<and>
             memcmp_buf parser ''> '' 2)
         then parser_handle_line parser
         else parser)"

text \<open>One pass of the loop body in the state RAWDATA, on the byte read.\<close>

definition feed_raw_byte :: "at_parser \<Rightarrow> char \<Rightarrow> at_parser" where
  "feed_raw_byte parser ch =
     (let parser =
            (if data_left parser > 0
             then (parser_append parser ch)\<lparr>data_left := data_left parser - 1\<rparr>
             else parser)
      in if data_left parser = 0
         then (let parser = parser_append parser LF
               in parser\<lparr>buf_current := buf_used parser, state := STATE_READLINE\<rparr>)
         else parser)"

text \<open>
  The loop of \<open>at_parser_feed\<close>. Its argument \<open>data\<close> is the memory that can be read from
  the pointer \<open>buf\<close> on; \<open>*buf++\<close> takes its first byte, and reading when none is left is a
  read past the end of the caller's memory. \<open>len\<close> is the counter of the loop. In the
  states IDLE, READLINE and DATAPROMPT a pass reads a byte and decrements \<open>len\<close>; in
  RAWDATA it reads a byte and leaves \<open>len\<close> as it is; in HEXDATA it does neither. The loop
  need not end, so the result is an option: \<open>None\<close> is a call that never returns.
\<close>

datatype feed_error = Read_past_end

partial_function (option) feed_loop ::
  "at_parser \<Rightarrow> string \<Rightarrow> nat \<Rightarrow> (feed_error + at_parser) option" where
  "feed_loop parser data len =
     (if len = 0 then Some (Inr parser)
      else
        (case state parser of
           STATE_RAWDATA \<Rightarrow>
             (case data of
                [] \<Rightarrow> Some (Inl Read_past_end)
              | ch # data' \<Rightarrow> feed_loop (feed_raw_byte parser ch) data' len)
         | STATE_HEXDATA \<Rightarrow> feed_loop parser data len
         | _ \<Rightarrow>
             (case data of
                [] \<Rightarrow> Some (Inl Read_past_end)
              | ch # data' \<Rightarrow> feed_loop (feed_line_byte parser ch) data' (len - 1))))"

declare feed_loop.simps [code]

definition at_parser_feed ::
  "at_parser \<Rightarrow> string \<Rightarrow> nat \<Rightarrow> (feed_error + at_parser) option" where
  "at_parser_feed parser data len = feed_loop parser data len"


section \<open>Notions used to state the properties\<close>

subsection \<open>The steps of \<open>parser_handle_line\<close>\<close>

definition current_line :: "at_parser \<Rightarrow> string" where
  "current_line parser = buf_bytes parser (buf_current parser) (buf_used parser)"

definition terminate_line :: "at_parser \<Rightarrow> at_parser" where
  "terminate_line parser = parser\<lparr>buf := (buf parser)(buf_used parser := NUL)\<rparr>"

definition store_line :: "at_response_type \<Rightarrow> at_parser \<Rightarrow> at_parser" where
  "store_line type parser =
     (if type \<noteq> AT_RESPONSE_FINAL_OK
      then parser\<lparr>buf_current := buf_used parser\<rparr>
      else (let parser = discard_line parser
            in parser\<lparr>buf := (buf parser)(buf_used parser := NUL)\<rparr>))"

definition act_on_type :: "at_response_type \<Rightarrow> at_parser \<Rightarrow> at_parser" where
  "act_on_type type parser =
     (let category = type AND AT_RESPONSE_TYPE_MASK
      in if category = AT_RESPONSE_FINAL_OK \<or> category = AT_RESPONSE_FINAL then
           at_parser_reset
             (invoke (Handle_response (buf_bytes parser 0 (buf_used parser))) parser)
         else if category = AT_RESPONSE_RAWDATA_FOLLOWS' then
           parser\<lparr>data_left := size_t_of_int (drop_bit 8 type), state := STATE_RAWDATA\<rparr>
         else if category = AT_RESPONSE_HEXDATA_FOLLOWS' then
           parser\<lparr>data_left := size_t_of_int (drop_bit 8 type), nibble := - 1,
                  state := STATE_HEXDATA\<rparr>
         else parser)"

text \<open>
  What \<open>parser_handle_line\<close> does with a line once its type is determined: the line goes
  to the URC handler and is discarded, or it is stored and the type is acted on.
\<close>

definition handle_classified :: "at_response_type \<Rightarrow> string \<Rightarrow> at_parser \<Rightarrow> at_parser" where
  "handle_classified type line parser =
     (if type = AT_RESPONSE_URC \<or> state parser = STATE_IDLE
      then discard_line (invoke (Handle_urc line) parser)
      else act_on_type type (store_line type parser))"

text \<open>
  The first half of a pass of the loop in the line states: the byte is appended, behind a
  separator if a line begins behind committed ones. \<open>parser_handle_line\<close> is called on the
  parser this leaves, if the byte is a newline or completes the data prompt.
\<close>

definition collect_byte :: "at_parser \<Rightarrow> char \<Rightarrow> at_parser" where
  "collect_byte parser ch =
     (if ch \<noteq> CR \<and> ch \<noteq> LF then
        parser_append
          (if buf_used parser > 0 \<and> buf_current parser = buf_used parser
           then (parser_append parser LF)\<lparr>buf_current := buf_used (parser_append parser LF)\<rparr>
           else parser) ch
      else parser)"

subsection \<open>The classifier chain in the words of the specification\<close>

text \<open>
  The classifiers are consulted in order; one that is not installed is passed over, and
  one that answers \<open>UNKNOWN\<close> defers to the next.
\<close>

fun classifier_chain :: "line_scanner_t option list \<Rightarrow> string \<Rightarrow> at_response_type" where
  "classifier_chain [] line = AT_RESPONSE_UNKNOWN"
| "classifier_chain (None # rest) line = classifier_chain rest line"
| "classifier_chain (Some c # rest) line =
     (if c line = AT_RESPONSE_UNKNOWN then classifier_chain rest line else c line)"

text \<open>The built-in scanner, by the tables of literal prefixes.\<close>

definition builtin_scanner :: line_scanner_t where
  "builtin_scanner line =
     (if prefix ''RING'' line then AT_RESPONSE_URC
      else if prefix ''ERROR'' line \<or> prefix ''NO CARRIER'' line \<or>
              prefix ''+CME ERROR:'' line \<or> prefix ''+CMS ERROR:'' line
        then AT_RESPONSE_FINAL
      else if prefix ''OK'' line \<or> prefix ''> '' line then AT_RESPONSE_FINAL_OK
      else AT_RESPONSE_INTERMEDIATE)"

text \<open>
  The scanner callbacks consulted on a line, in their order: the per-command scanner if
  one is installed, then the session scanner if one is installed and the per-command
  scanner is absent or has deferred.
\<close>

definition consulted :: "at_parser \<Rightarrow> string \<Rightarrow> callback list" where
  "consulted p line =
     (case per_command_scanner p of None \<Rightarrow> [] | Some c \<Rightarrow> [Per_command_scanner line])
     @ (case scan_line (cbs p) of
          None \<Rightarrow> []
        | Some c \<Rightarrow>
            if classifier_chain [per_command_scanner p] line = AT_RESPONSE_UNKNOWN
            then [Scan_line line] else [])"

subsection \<open>The states a parser goes through\<close>

text \<open>
  Every state a parser is in between two passes of the loop of \<open>at_parser_feed\<close>, and
  before and after every call, whatever the calls and the bytes: the new parser, and from
  there a reset, an arming, or one pass of the loop on some byte; and the state in the
  middle of a pass in the line states, when the byte has been appended.
\<close>

inductive_set reachable :: "at_parser \<Rightarrow> at_parser set" for p0 :: at_parser where
  start: "p0 \<in> reachable p0"
| reset: "p \<in> reachable p0 \<Longrightarrow> at_parser_reset p \<in> reachable p0"
| await: "p \<in> reachable p0 \<Longrightarrow> at_parser_await_response p dataprompt scanner \<in> reachable p0"
| line_byte:
    "p \<in> reachable p0 \<Longrightarrow> state p \<noteq> STATE_RAWDATA \<Longrightarrow> state p \<noteq> STATE_HEXDATA \<Longrightarrow>
       feed_line_byte p ch \<in> reachable p0"
| raw_byte:
    "p \<in> reachable p0 \<Longrightarrow> state p = STATE_RAWDATA \<Longrightarrow> feed_raw_byte p ch \<in> reachable p0"
| collected:
    "p \<in> reachable p0 \<Longrightarrow> state p \<noteq> STATE_RAWDATA \<Longrightarrow> state p \<noteq> STATE_HEXDATA \<Longrightarrow>
       collect_byte p ch \<in> reachable p0"

text \<open>
  The cursors are in order and inside the buffer, now and at every invocation of a
  callback so far.
\<close>

definition cursors_ok :: "at_parser \<Rightarrow> bool" where
  "cursors_ok p =
     (buf_current p \<le> buf_used p \<and> buf_used p < buf_size p \<and>
      list_all (\<lambda>(c, cur, used). cur \<le> used \<and> used < buf_size p) (calls p))"

text \<open>A parser to run examples on: no session scanner, a buffer of \<open>n\<close> bytes.\<close>

definition no_callbacks :: at_parser_callbacks where
  "no_callbacks = \<lparr>scan_line = None\<rparr>"

definition raw_block :: "nat \<Rightarrow> char" where
  "raw_block = (\<lambda>i. CHR ''?'')"

definition raw_parser :: at_parser where
  "raw_parser =
     \<lparr>cbs = no_callbacks, priv = 7, per_command_scanner = None, state = STATE_HEXDATA,
      data_left = 9, nibble = 0, buf = (\<lambda>i. NUL), buf_used = 5, buf_size = 3,
      buf_current = 8, calls = []\<rparr>"

definition new_parser :: "nat \<Rightarrow> at_parser" where
  "new_parser n =
     \<lparr>cbs = no_callbacks, priv = 0, per_command_scanner = None, state = STATE_IDLE,
      data_left = 0, nibble = 0, buf = raw_block, buf_used = 0, buf_size = n,
      buf_current = 0, calls = []\<rparr>"

subsection \<open>Sequences of calls and example scanners\<close>

text \<open>The parser a call of \<open>at_parser_feed\<close> returns, if it returns without reading past the end.\<close>

definition returned :: "(feed_error + at_parser) option \<Rightarrow> at_parser option" where
  "returned r = (case r of Some (Inr p) \<Rightarrow> Some p | _ \<Rightarrow> None)"

text \<open>
  Calls of \<open>at_parser_feed\<close> one after the other, each with its pointer and its length.
\<close>

fun feed_chunks :: "at_parser \<Rightarrow> (string \<times> nat) list \<Rightarrow> (feed_error + at_parser) option" where
  "feed_chunks p [] = Some (Inr p)"
| "feed_chunks p ((data, len) # rest) =
     (case at_parser_feed p data len of
        None \<Rightarrow> None
      | Some (Inl e) \<Rightarrow> Some (Inl e)
      | Some (Inr p') \<Rightarrow> feed_chunks p' rest)"

text \<open>
  Two per-command scanners: one announces a byte of hex data on every line, the other a
  byte of raw data on a line that starts with \<open>+R\<close>.
\<close>

definition hex_scanner :: line_scanner_t where
  "hex_scanner line = AT_RESPONSE_HEXDATA_FOLLOWS 1"

definition raw_scanner :: line_scanner_t where
  "raw_scanner line =
     (if prefix ''+R'' line then AT_RESPONSE_RAWDATA_FOLLOWS 1 else AT_RESPONSE_UNKNOWN)"

text \<open>
  A parser armed with a per-command scanner that defers on the line it has read, OK.
\<close>

definition deferred_example :: at_parser where
  "deferred_example =
     foldl feed_line_byte (at_parser_await_response (new_parser 16) False (Some raw_scanner))
       [CHR ''O'', CHR ''K'']"

text \<open>
  A scanner that never announces raw or hex data, and a parser in one of the states IDLE,
  READLINE and DATAPROMPT whose scanners are such.
\<close>

definition no_data_follows :: "line_scanner_t option \<Rightarrow> bool" where
  "no_data_follows scanner =
     (case scanner of
        None \<Rightarrow> True
      | Some f \<Rightarrow> \<forall>line. f line AND AT_RESPONSE_TYPE_MASK \<noteq> AT_RESPONSE_RAWDATA_FOLLOWS' \<and>
                       f line AND AT_RESPONSE_TYPE_MASK \<noteq> AT_RESPONSE_HEXDATA_FOLLOWS')"

definition line_mode :: "at_parser \<Rightarrow> bool" where
  "line_mode p =
     (state p \<noteq> STATE_RAWDATA \<and> state p \<noteq> STATE_HEXDATA \<and>
      no_data_follows (per_command_scanner p) \<and> no_data_follows (scan_line (cbs p)))"

subsection \<open>The lines in the buffer\<close>

text \<open>Lines joined by single newlines, with none behind the last.\<close>

fun join_lines :: "string list \<Rightarrow> string" where
  "join_lines [] = []"
| "join_lines [l] = l"
| "join_lines (l # ls) = l @ LF # join_lines ls"

text \<open>A line as the parser collects it: not empty, and without a newline in it.\<close>

definition is_line :: "string \<Rightarrow> bool" where
  "is_line l = (l \<noteq> [] \<and> LF \<notin> set l)"

text \<open>
  The bytes in front of a line under construction: the lines committed before it, joined,
  and the separator behind them if there are any.
\<close>

definition committed :: "string list \<Rightarrow> string" where
  "committed ls = (if ls = [] then [] else join_lines ls @ [LF])"

text \<open>The buffer takes no further byte.\<close>

definition no_room :: "at_parser \<Rightarrow> bool" where
  "no_room p = (size_t_of_int (int (buf_size p) - 1) \<le> buf_used p)"

text \<open>
  The buffer holds the committed lines \<open>ls\<close>: in front of the line under construction if
  there is one; else alone, or, when the buffer ran full on a separator, with that
  separator behind them.
\<close>

definition holds_lines :: "string list \<Rightarrow> at_parser \<Rightarrow> bool" where
  "holds_lines ls p =
     (list_all is_line ls \<and> buf_current p \<le> buf_used p \<and>
      (if buf_current p < buf_used p
       then is_line (current_line p) \<and> buf_bytes p 0 (buf_current p) = committed ls
       else buf_bytes p 0 (buf_used p) = join_lines ls \<or>
            (ls \<noteq> [] \<and> no_room p \<and> buf_bytes p 0 (buf_used p) = committed ls)))"







section \<open>The dispatcher (at-freertos\_hal.c)\<close>

subsection \<open>Data model\<close>

definition AT_COMMAND_LENGTH :: nat where "AT_COMMAND_LENGTH = 80"

text \<open>
  The instance. \<open>parser\<close> and \<open>command_scanner\<close> are the fields of the embedded
  \<open>struct at\<close> that the code below uses; \<open>xSem\<close> is the binary semaphore, given or not;
  \<open>xUART\<close> is the transport, as the list of the writes made to it.
\<close>

record at_freertos =
  parser :: at_parser
  command_scanner :: "line_scanner_t option"
  timeout :: int
  response :: string
  xSem :: bool
  xUART :: "string list"
  running :: bool
  "open" :: bool
  busy :: bool
  waiting :: bool

text \<open>
  A command blocks its caller on the semaphore, and the reader task and the other tasks
  run meanwhile. What they do to the instance while the caller is blocked for the
  \<open>k\<close>-th time is an input: a function of \<open>k\<close> and of the instance.
\<close>

type_synonym tasks = "nat \<Rightarrow> at_freertos \<Rightarrow> at_freertos"

text \<open>
  The response callback the dispatcher installs in the parser. \<open>AT_BUF_SIZE\<close>, the size
  of the array \<open>response\<close>, is defined in a header that is not among the sources; it is a
  parameter. \<open>response\<close> holds the bytes in front of the NUL the callback writes.
\<close>

definition handle_response :: "nat \<Rightarrow> string \<Rightarrow> at_freertos \<Rightarrow> at_freertos" where
  "handle_response AT_BUF_SIZE buf' chan =
     (let len = length buf';
          len = (if len < AT_BUF_SIZE - 1 then len else AT_BUF_SIZE - 1)
      in chan\<lparr>response := take len buf', waiting := False, xSem := True\<rparr>)"

text \<open>
  \<open>xSemaphoreTake\<close> of FreeRTOS on \<open>xSem\<close>: a semaphore that is given is taken at once;
  otherwise the caller blocks and the other tasks run, until the semaphore is given or the
  time is over. With no time to wait nothing runs meanwhile (\<open>id\<close>).
\<close>

definition xSemaphoreTake ::
  "(at_freertos \<Rightarrow> at_freertos) \<Rightarrow> at_freertos \<Rightarrow> bool \<times> at_freertos" where
  "xSemaphoreTake meanwhile chan =
     (if xSem chan then (True, chan\<lparr>xSem := False\<rparr>)
      else (let chan = meanwhile chan
            in if xSem chan then (True, chan\<lparr>xSem := False\<rparr>) else (False, chan)))"

subsection \<open>Commands\<close>

text \<open>
  The loop \<open>while (timeout-- && priv->open && priv->waiting)\<close> of \<open>_at_command\<close>, which
  leaves at the first semaphore taken. A negative timeout never reaches zero, so the loop
  need not end: the result is an option.
\<close>

partial_function (option) wait_loop ::
  "tasks \<Rightarrow> nat \<Rightarrow> int \<Rightarrow> at_freertos \<Rightarrow> (at_freertos \<times> nat) option" where
  "wait_loop others k timeout' chan =
     (if timeout' \<noteq> 0 \<and> open chan \<and> waiting chan then
        (case xSemaphoreTake (others k) chan of
           (taken, chan) \<Rightarrow>
             if taken then Some (chan, k + 1)
             else wait_loop others (k + 1) (timeout' - 1) chan)
      else Some (chan, k))"

declare wait_loop.simps [code]

text \<open>
  \<open>_at_command\<close>. The source arms the parser with \<open>at_parser_await_response(parser)\<close>;
  the parser of at\_parser.c takes the data-prompt flag and the per-command scanner as
  well, which the spec gives as \<open>parser.await_response(dataprompt, command_scanner)\<close>. The
  flag is an argument here. The result is the null pointer (\<open>None\<close>) or the response.
\<close>

definition at_command' ::
  "at_freertos \<Rightarrow> bool \<Rightarrow> string \<Rightarrow> nat \<Rightarrow> tasks \<Rightarrow> nat
     \<Rightarrow> (string option \<times> at_freertos \<times> nat) option" where
  "at_command' chan dataprompt data size' others k =
     (if \<not> open chan then Some (None, chan, k)
      else
        let chan = chan\<lparr>parser :=
                     at_parser_await_response (parser chan) dataprompt (command_scanner chan)\<rparr>;
            chan = chan\<lparr>xUART := xUART chan @ [take size' data]\<rparr>;
            chan = chan\<lparr>waiting := True\<rparr>;
            chan = snd (xSemaphoreTake id chan);
            chan = snd (xSemaphoreTake id chan)
        in case wait_loop others k (timeout chan) chan of
             None \<Rightarrow> None
           | Some (chan, k) \<Rightarrow>
               let (result, chan) =
                     (if \<not> open chan then (None, chan)
                      else if waiting chan
                        then (None, chan\<lparr>parser := at_parser_reset (parser chan)\<rparr>)
                      else (Some (response chan), chan));
                   chan = chan\<lparr>command_scanner := None\<rparr>
               in Some (result, chan, k))"

text \<open>
  \<open>at_command\<close>. \<open>text\<close> is the expansion of the format with its arguments;
  \<open>vsnprintf\<close> returns its length, whatever it could write.
\<close>

definition at_command ::
  "at_freertos \<Rightarrow> bool \<Rightarrow> string \<Rightarrow> tasks \<Rightarrow> nat
     \<Rightarrow> (string option \<times> at_freertos \<times> nat) option" where
  "at_command chan dataprompt text others k =
     (let len = int (length text)
      in if len \<ge> int AT_COMMAND_LENGTH - 1 then Some (None, chan, k)
         else (let line = text @ [CR]; len = len + 1
               in at_command' chan dataprompt line (nat len) others k))"

text \<open>
  \<open>at_config\<close>: the loop over the attempts, then the function, whose \<open>attempts\<close> is an
  \<open>int\<close>. \<open>vTaskDelay\<close> lets the other tasks run.
\<close>

fun at_config_loop ::
  "at_freertos \<Rightarrow> bool \<Rightarrow> string \<Rightarrow> string \<Rightarrow> nat \<Rightarrow> tasks \<Rightarrow> nat
     \<Rightarrow> (int \<times> at_freertos \<times> nat) option" where
  "at_config_loop chan dataprompt option' value 0 others k = Some (0, chan, k)"
| "at_config_loop chan dataprompt option' value (Suc n) others k =
     (case at_command chan dataprompt (''AT+'' @ option' @ ''='' @ value) others k of
        None \<Rightarrow> None
      | Some (_, chan, k) \<Rightarrow>
          (case at_command chan dataprompt (''AT+'' @ option' @ ''?'') others k of
             None \<Rightarrow> None
           | Some (None, chan, k) \<Rightarrow> Some (- 2, chan, k)
           | Some (Some response', chan, k) \<Rightarrow>
               (let expected = ''+'' @ option' @ '': '' @ value
                in if int (length expected) \<ge> 32 then Some (- 1, chan, k)
                   else if strncmp (c_str response') expected (length expected) = 0
                     then Some (0, chan, k)
                   else at_config_loop (others k chan) dataprompt option' value n others (k + 1))))"

definition at_config ::
  "at_freertos \<Rightarrow> bool \<Rightarrow> string \<Rightarrow> string \<Rightarrow> int \<Rightarrow> tasks \<Rightarrow> nat
     \<Rightarrow> (int \<times> at_freertos \<times> nat) option" where
  "at_config chan dataprompt option' value attempts others k =
     at_config_loop chan dataprompt option' value (nat attempts) others k"

subsection \<open>Notions used to state the properties of the dispatcher\<close>

text \<open>
  The instance when the wait of \<open>_at_command\<close> begins, and what \<open>_at_command\<close> makes of
  the instance the wait ends with.
\<close>

definition armed :: "at_freertos \<Rightarrow> bool \<Rightarrow> string \<Rightarrow> nat \<Rightarrow> at_freertos" where
  "armed chan dataprompt data n =
     snd (xSemaphoreTake id (snd (xSemaphoreTake id
       (chan\<lparr>parser := at_parser_await_response (parser chan) dataprompt (command_scanner chan),
              xUART := xUART chan @ [take n data], waiting := True\<rparr>))))"

definition resolve :: "at_freertos \<Rightarrow> string option \<times> at_freertos" where
  "resolve w =
     (if \<not> open w then (None, w\<lparr>command_scanner := None\<rparr>)
      else if waiting w
        then (None, w\<lparr>parser := at_parser_reset (parser w), command_scanner := None\<rparr>)
      else (Some (response w), w\<lparr>command_scanner := None\<rparr>))"

text \<open>
  Examples: an open channel with a per-command scanner installed and a timeout of two
  seconds, the same channel closed, the same channel with a negative timeout, which never
  runs out; other tasks that do nothing, and other tasks in which
  the parser delivers the response \<open>s\<close> (with \<open>AT_BUF_SIZE = 64\<close>); the instance after a
  command that was answered; a text and an option too long.
\<close>

definition new_channel :: at_freertos where
  "new_channel =
     \<lparr>parser = new_parser 64, command_scanner = Some hex_scanner, timeout = 2, response = [],
      xSem = False, xUART = [], running = True, open = True, busy = False, waiting = False\<rparr>"

definition closed_channel :: at_freertos where
  "closed_channel = new_channel\<lparr>open := False\<rparr>"

definition unbounded_channel :: at_freertos where
  "unbounded_channel = new_channel\<lparr>timeout := - 1\<rparr>"

definition quiet :: tasks where "quiet k chan = chan"

definition answers :: "string \<Rightarrow> tasks" where
  "answers s k chan = handle_response 64 s chan"

definition answered :: "string \<Rightarrow> string \<Rightarrow> at_freertos \<Rightarrow> at_freertos" where
  "answered text resp chan =
     chan\<lparr>parser := at_parser_await_response (parser chan) False (command_scanner chan),
          command_scanner := None, response := resp, xSem := False,
          xUART := xUART chan @ [text @ [CR]], waiting := False\<rparr>"

definition long_text :: string where
  "long_text = replicate 79 (CHR ''A'')"

definition long_option :: string where
  "long_option = replicate 30 (CHR ''X'')"

section \<open>Properties\<close>

subsection \<open>Basic facts\<close>

lemmas eval_defs = at_parser_reset_def
     at_parser_await_response_def feed_line_byte_def feed_raw_byte_def parser_append_def size_t_of_int_def CR_def LF_def NUL_def
     memcmp_buf_def buf_bytes_def parser_handle_line_def response_type_def Let_def generic_line_scanner_def
     urc_responses_def error_responses_def ok_responses_def c_str_def discard_line_def invoke_def
     AT_RESPONSE_URC_def AT_RESPONSE_FINAL_OK_def AT_RESPONSE_FINAL_def AT_RESPONSE_INTERMEDIATE_def AT_RESPONSE_UNKNOWN_def
     AT_RESPONSE_TYPE_MASK_def AT_RESPONSE_RAWDATA_FOLLOWS'_def AT_RESPONSE_HEXDATA_FOLLOWS'_def
     AT_RESPONSE_RAWDATA_FOLLOWS_def AT_RESPONSE_HEXDATA_FOLLOWS_def new_parser_def no_callbacks_def raw_block_def returned_def upt_conv_Cons

lemma new_parser_alloc:
  "at_parser_alloc no_callbacks n 0 (Some raw_parser) (Some raw_block) = Inr (new_parser n)"
  by (simp add: at_parser_alloc_def at_parser_reset_def raw_parser_def new_parser_def)

lemma size_t_sub1: "size_t_of_int (int n - 1) \<le> n - 1" if "1 \<le> n"
proof -
  have "(int n - 1) mod 2 ^ 32 \<le> int n - 1"
    using that by (intro zmod_le_nonneg_dividend) simp
  then show ?thesis by (simp add: size_t_of_int_def)
qed

lemma append_fields [simp]:
  "buf_current (parser_append p ch) = buf_current p"
  "buf_size (parser_append p ch) = buf_size p"
  "calls (parser_append p ch) = calls p"
  "state (parser_append p ch) = state p"
  "cbs (parser_append p ch) = cbs p"
  "priv (parser_append p ch) = priv p"
  "nibble (parser_append p ch) = nibble p"
  "data_left (parser_append p ch) = data_left p"
  "per_command_scanner (parser_append p ch) = per_command_scanner p"
  by (simp_all add: parser_append_def)

lemma response_type_fields [simp]:
  "buf_current (snd (response_type p line)) = buf_current p"
  "buf_used (snd (response_type p line)) = buf_used p"
  "buf_size (snd (response_type p line)) = buf_size p"
  "state (snd (response_type p line)) = state p"
  "buf (snd (response_type p line)) = buf p"
  "cbs (snd (response_type p line)) = cbs p"
  "priv (snd (response_type p line)) = priv p"
  "nibble (snd (response_type p line)) = nibble p"
  "data_left (snd (response_type p line)) = data_left p"
  "per_command_scanner (snd (response_type p line)) = per_command_scanner p"
  by (simp_all add: response_type_def Let_def invoke_def split: option.splits)

lemma current_line_terminate [simp]: "current_line (terminate_line p) = current_line p"
  by (simp add: current_line_def terminate_line_def buf_bytes_def)

lemma parser_handle_line_steps:
  "parser_handle_line p =
     (if buf_used p = buf_current p then p
      else
        let type = fst (response_type (terminate_line p) (current_line p));
            q = snd (response_type (terminate_line p) (current_line p))
        in if type = AT_RESPONSE_URC \<or> state p = STATE_IDLE
           then discard_line (invoke (Handle_urc (current_line p)) q)
           else act_on_type type (store_line type q))"
proof -
  have "buf_bytes (terminate_line p) (buf_current p) (buf_used p) = current_line p"
    using current_line_terminate [of p]
    by (simp add: current_line_def terminate_line_def)
  then show ?thesis
    by (simp add: parser_handle_line_def Let_def split_beta
        act_on_type_def store_line_def terminate_line_def)
qed

lemma instance_discard [simp]:
  "cbs (discard_line p) = cbs p" "priv (discard_line p) = priv p"
  "buf_size (discard_line p) = buf_size p"
  by (simp_all add: discard_line_def Let_def)

lemma instance_invoke [simp]:
  "cbs (invoke c p) = cbs p" "priv (invoke c p) = priv p" "buf_size (invoke c p) = buf_size p"
  by (simp_all add: invoke_def)

lemma instance_reset [simp]:
  "cbs (at_parser_reset p) = cbs p" "priv (at_parser_reset p) = priv p"
  "buf_size (at_parser_reset p) = buf_size p"
  by (simp_all add: at_parser_reset_def)

lemma instance_await [simp]:
  "cbs (at_parser_await_response p d sc) = cbs p"
  "priv (at_parser_await_response p d sc) = priv p"
  "buf_size (at_parser_await_response p d sc) = buf_size p"
  by (simp_all add: at_parser_await_response_def)

lemma instance_store_line [simp]:
  "cbs (store_line t p) = cbs p" "priv (store_line t p) = priv p"
  "buf_size (store_line t p) = buf_size p"
  by (simp_all add: store_line_def Let_def)

lemma instance_act_on_type [simp]:
  "cbs (act_on_type t p) = cbs p" "priv (act_on_type t p) = priv p"
  "buf_size (act_on_type t p) = buf_size p"
  by (simp_all add: act_on_type_def Let_def)

lemma instance_terminate [simp]:
  "cbs (terminate_line p) = cbs p" "priv (terminate_line p) = priv p"
  "buf_size (terminate_line p) = buf_size p"
  by (simp_all add: terminate_line_def)

lemma instance_handle_line [simp]:
  "cbs (parser_handle_line p) = cbs p" "priv (parser_handle_line p) = priv p"
  "buf_size (parser_handle_line p) = buf_size p"
  by (simp_all add: parser_handle_line_steps Let_def)

lemma instance_line_byte [simp]:
  "cbs (feed_line_byte p ch) = cbs p" "priv (feed_line_byte p ch) = priv p"
  "buf_size (feed_line_byte p ch) = buf_size p"
  by (simp_all add: feed_line_byte_def Let_def)

lemma instance_collect [simp]:
  "cbs (collect_byte p ch) = cbs p" "priv (collect_byte p ch) = priv p"
  "buf_size (collect_byte p ch) = buf_size p"
  by (simp_all add: collect_byte_def)

lemma instance_raw_byte [simp]:
  "cbs (feed_raw_byte p ch) = cbs p" "priv (feed_raw_byte p ch) = priv p"
  "buf_size (feed_raw_byte p ch) = buf_size p"
  by (simp_all add: feed_raw_byte_def Let_def)

lemma instance_reachable:
  "p \<in> reachable p0 \<Longrightarrow> cbs p = cbs p0 \<and> priv p = priv p0 \<and> buf_size p = buf_size p0"
  by (induction rule: reachable.induct) simp_all

lemma alloc_fields:
  "at_parser_alloc c bufsize pr mp mb = Inr p0 \<Longrightarrow>
     cbs p0 = c \<and> priv p0 = pr \<and> buf_size p0 = bufsize \<and> state p0 = STATE_IDLE \<and>
     per_command_scanner p0 = None \<and> buf_used p0 = 0 \<and> buf_current p0 = 0 \<and>
     data_left p0 = 0 \<and> calls p0 = []"
  by (auto simp: at_parser_alloc_def at_parser_reset_def split: option.splits)

text \<open>
  What holds of a result of the loop holds by induction on its passes. The rule says
  nothing of a call that does not return.
\<close>

lemma feed_loop_induct [consumes 1, case_names stop past_end line_byte raw_byte]:
  assumes run: "feed_loop p data len = Some r"
    and stop: "\<And>p data. P p data 0 (Inr p)"
    and past_end:
      "\<And>p len. 0 < len \<Longrightarrow> state p \<noteq> STATE_HEXDATA \<Longrightarrow> P p [] len (Inl Read_past_end)"
    and line_byte:
      "\<And>p ch data len r. 0 < len \<Longrightarrow> state p \<noteq> STATE_RAWDATA \<Longrightarrow>
         state p \<noteq> STATE_HEXDATA \<Longrightarrow>
         P (feed_line_byte p ch) data (len - 1) r \<Longrightarrow> P p (ch # data) len r"
    and raw_byte:
      "\<And>p ch data len r. 0 < len \<Longrightarrow> state p = STATE_RAWDATA \<Longrightarrow>
         P (feed_raw_byte p ch) data len r \<Longrightarrow> P p (ch # data) len r"
  shows "P p data len r"
proof (rule feed_loop.raw_induct [where P = P, OF _ run])
  fix f p data len r
  assume IH: "\<And>p data len r. f p data len = Some r \<Longrightarrow> P p data len r"
    and step:
      "(if len = 0 then Some (Inr p)
        else case state p of
             STATE_RAWDATA \<Rightarrow>
               (case data of [] \<Rightarrow> Some (Inl Read_past_end)
                | ch # data' \<Rightarrow> f (feed_raw_byte p ch) data' len)
             | STATE_HEXDATA \<Rightarrow> f p data len
             | _ \<Rightarrow> (case data of [] \<Rightarrow> Some (Inl Read_past_end)
                   | ch # data' \<Rightarrow> f (feed_line_byte p ch) data' (len - 1))) = Some r"
  show "P p data len r"
  proof (cases "len = 0")
    case True
    with step stop show ?thesis by auto
  next
    case False
    then have pos: "0 < len" by simp
    show ?thesis
    proof (cases "state p")
      case STATE_RAWDATA
      with step False IH pos show ?thesis
        by (cases data) (auto intro: past_end raw_byte)
    next
      case STATE_HEXDATA
      with step False IH show ?thesis by simp
    next
      case STATE_IDLE
      with step False IH pos show ?thesis
        by (cases data) (auto intro: past_end line_byte)
    next
      case STATE_READLINE
      with step False IH pos show ?thesis
        by (cases data) (auto intro: past_end line_byte)
    next
      case STATE_DATAPROMPT
      with step False IH pos show ?thesis
        by (cases data) (auto intro: past_end line_byte)
    qed
  qed
qed

lemma feed_loop_reachable:
  assumes "feed_loop p data len = Some r"
  shows "p \<in> reachable p0 \<Longrightarrow> r = Inr p' \<Longrightarrow> p' \<in> reachable p0"
  using assms
  by (induction rule: feed_loop_induct) (auto intro: reachable.line_byte reachable.raw_byte)

subsection \<open>The classifier chain\<close>

lemma strncmp_prefix:
  "NUL \<notin> set t \<Longrightarrow> (strncmp (c_str s) t (length t) = 0) = prefix t s"
proof (induction t arbitrary: s)
  case Nil
  then show ?case by simp
next
  case (Cons y t)
  show ?case
  proof (cases s)
    case Nil
    then show ?thesis by (simp add: c_str_def)
  next
    case (Cons x s')
    show ?thesis
    proof (cases "x = NUL")
      case True
      with Cons Cons.prems show ?thesis by (auto simp: c_str_def)
    next
      case False
      with Cons Cons.prems Cons.IH [of s'] show ?thesis
        by (auto simp: c_str_def)
    qed
  qed
qed

lemma at_prefix_in_table_prefix:
  "NUL \<notin> \<Union> (set ` set table) \<Longrightarrow>
     at_prefix_in_table line table = list_ex (\<lambda>t. prefix t line) table"
  by (induction table) (simp_all add: strncmp_prefix)

lemma in_urc_responses: "at_prefix_in_table line urc_responses = prefix ''RING'' line"
  by (subst at_prefix_in_table_prefix) (simp_all add: urc_responses_def NUL_def)

lemma in_error_responses:
  "at_prefix_in_table line error_responses =
     (prefix ''ERROR'' line \<or> prefix ''NO CARRIER'' line \<or>
      prefix ''+CME ERROR:'' line \<or> prefix ''+CMS ERROR:'' line)"
  by (subst at_prefix_in_table_prefix) (simp_all add: error_responses_def NUL_def)

lemma in_ok_responses:
  "at_prefix_in_table line ok_responses = (prefix ''OK'' line \<or> prefix ''> '' line)"
  by (subst at_prefix_in_table_prefix) (simp_all add: ok_responses_def NUL_def)

lemma generic_line_scanner_builtin: "generic_line_scanner line = builtin_scanner line"
  by (simp only: generic_line_scanner_def builtin_scanner_def in_urc_responses
        in_error_responses in_ok_responses)

lemma builtin_known: "builtin_scanner line \<noteq> 0"
  by (simp add: builtin_scanner_def AT_RESPONSE_URC_def
        AT_RESPONSE_FINAL_def AT_RESPONSE_FINAL_OK_def AT_RESPONSE_INTERMEDIATE_def)

lemma response_type_chain:
  "fst (response_type p line) =
     classifier_chain [per_command_scanner p, scan_line (cbs p), Some builtin_scanner] line"
  by (auto simp: response_type_def Let_def generic_line_scanner_builtin builtin_known
        AT_RESPONSE_UNKNOWN_def split: option.splits)

lemma response_type_consulted:
  "snd (response_type p line) =
     p\<lparr>calls := calls p @ map (\<lambda>c. (c, buf_current p, buf_used p)) (consulted p line)\<rparr>"
  by (auto simp: response_type_def Let_def invoke_def consulted_def AT_RESPONSE_UNKNOWN_def
        split: option.splits)

lemma chain_known:
  "classifier_chain [a, b, Some builtin_scanner] line \<noteq> AT_RESPONSE_UNKNOWN"
  using builtin_known [of line]
  by (cases a; cases b) (simp_all add: AT_RESPONSE_UNKNOWN_def)

lemma handle_classified_calls: "prefix (calls q) (calls (handle_classified type line q))"
  by (simp add: handle_classified_def discard_line_def invoke_def act_on_type_def
        store_line_def Let_def at_parser_reset_def)

text \<open>
  C5. When a line is completed and is not empty, \<open>parser_handle_line\<close> (which the loop of
  \<open>at_parser_feed\<close> calls on a newline) terminates the line, consults the scanners on it
  in the order per-command scanner, session \<open>scan_line\<close>, the latter only when the former is
  absent or has deferred, and goes on with the type that the chain per-command scanner,
  session scanner, built-in scanner gives: the answer of the first one that is installed
  and does not answer \<open>UNKNOWN\<close> (zero). That type is never \<open>UNKNOWN\<close>. The generic scanner
  of the code is the built-in scanner of the tables: URC on the prefix RING, FINAL on the
  four error prefixes, FINAL\_OK on the prefixes OK and \<open>> \<close>, in that order, INTERMEDIATE
  otherwise. The callbacks invoked begin with the scanners consulted.
\<close>

theorem classifier_chain_order:
  assumes "buf_used p \<noteq> buf_current p"
  shows "parser_handle_line p =
       handle_classified
         (classifier_chain [per_command_scanner p, scan_line (cbs p), Some builtin_scanner]
            (current_line p))
         (current_line p)
         ((terminate_line p)
            \<lparr>calls := calls p @ map (\<lambda>c. (c, buf_current p, buf_used p))
                                   (consulted p (current_line p))\<rparr>)
   \<and> classifier_chain [per_command_scanner p, scan_line (cbs p), Some builtin_scanner]
        (current_line p) \<noteq> AT_RESPONSE_UNKNOWN
   \<and> feed_line_byte p LF = parser_handle_line p
   \<and> prefix (map fst (calls p) @ consulted p (current_line p))
        (map fst (calls (parser_handle_line p)))
   \<and> generic_line_scanner line = builtin_scanner line
   \<and> builtin_scanner line \<noteq> AT_RESPONSE_UNKNOWN"
proof -
  let ?line = "current_line p"
  let ?type = "classifier_chain [per_command_scanner p, scan_line (cbs p), Some builtin_scanner]
                 ?line"
  let ?q = "(terminate_line p)
              \<lparr>calls := calls p @ map (\<lambda>c. (c, buf_current p, buf_used p)) (consulted p ?line)\<rparr>"
  have q: "snd (response_type (terminate_line p) ?line) = ?q"
    by (simp add: response_type_consulted consulted_def terminate_line_def)
  have t: "fst (response_type (terminate_line p) ?line) = ?type"
    by (simp add: response_type_chain terminate_line_def)
  have st: "state ?q = state p"
    by (simp add: terminate_line_def)
  have main: "parser_handle_line p = handle_classified ?type ?line ?q"
    using assms
    by (simp only: parser_handle_line_steps Let_def q t handle_classified_def st if_False)
  have "prefix (map fst (calls ?q)) (map fst (calls (handle_classified ?type ?line ?q)))"
    by (intro map_mono_prefix handle_classified_calls)
  then have pre: "prefix (map fst (calls p) @ consulted p ?line)
      (map fst (calls (parser_handle_line p)))"
    by (simp add: main comp_def)
  have lf: "feed_line_byte p LF = parser_handle_line p"
    by (simp add: feed_line_byte_def Let_def)
  have known: "builtin_scanner line \<noteq> AT_RESPONSE_UNKNOWN"
    using builtin_known [of line] by (simp add: AT_RESPONSE_UNKNOWN_def)
  show ?thesis
    using main chain_known [of "per_command_scanner p" "scan_line (cbs p)" ?line] lf pre
      generic_line_scanner_builtin [of line] known
    by (intro conjI)
qed

theorem classifier_chain_order_witness:
  "buf_used deferred_example \<noteq> buf_current deferred_example
   \<and> current_line deferred_example = ''OK''
   \<and> consulted deferred_example ''OK'' = [Per_command_scanner ''OK'']
   \<and> classifier_chain
        [per_command_scanner deferred_example, scan_line (cbs deferred_example),
         Some builtin_scanner] ''OK'' = AT_RESPONSE_FINAL_OK
   \<and> parser_handle_line deferred_example =
       handle_classified AT_RESPONSE_FINAL_OK ''OK''
         ((terminate_line deferred_example)\<lparr>calls := [(Per_command_scanner ''OK'', 0, 2)]\<rparr>)
   \<and> calls (parser_handle_line deferred_example) =
       [(Per_command_scanner ''OK'', 0, 2), (Handle_response [], 0, 0)]
   \<and> feed_line_byte deferred_example LF = parser_handle_line deferred_example
   \<and> prefix [Per_command_scanner ''OK''] (map fst (calls (parser_handle_line deferred_example)))
   \<and> generic_line_scanner ''RING'' = builtin_scanner ''RING''
   \<and> builtin_scanner ''RING'' \<noteq> AT_RESPONSE_UNKNOWN"
proof -
  have h: "buf_used deferred_example \<noteq> buf_current deferred_example"
    by (simp add: deferred_example_def eval_defs)
  have more: "current_line deferred_example = ''OK''"
    "buf_current deferred_example = 0" "buf_used deferred_example = 2"
    "calls deferred_example = []"
    "per_command_scanner deferred_example = Some raw_scanner"
    "scan_line (cbs deferred_example) = None"
    by (simp_all add: deferred_example_def eval_defs current_line_def)
  have c: "consulted deferred_example ''OK'' = [Per_command_scanner ''OK'']"
    by (simp add: consulted_def more)
  have t: "classifier_chain [Some raw_scanner, None, Some builtin_scanner] ''OK''
      = AT_RESPONSE_FINAL_OK"
    by (simp add: raw_scanner_def builtin_scanner_def AT_RESPONSE_UNKNOWN_def
          AT_RESPONSE_FINAL_OK_def)
  have calls: "calls (parser_handle_line deferred_example) =
       [(Per_command_scanner ''OK'', 0, 2), (Handle_response [], 0, 0)]"
    by (simp add: deferred_example_def eval_defs raw_scanner_def)
  show ?thesis
    using classifier_chain_order [OF h, of "''RING''"] h more c t calls
    by simp
qed

subsection \<open>The cursors of the buffer\<close>

lemma cursors_ok_upd [simp]:
  "cursors_ok (p\<lparr>buf := b\<rparr>) = cursors_ok p"
  "cursors_ok (p\<lparr>state := s\<rparr>) = cursors_ok p"
  "cursors_ok (p\<lparr>data_left := d\<rparr>) = cursors_ok p"
  "cursors_ok (p\<lparr>nibble := k\<rparr>) = cursors_ok p"
  "cursors_ok (p\<lparr>per_command_scanner := sc\<rparr>) = cursors_ok p"
  by (simp_all add: cursors_ok_def)

lemma cursors_ok_append: "cursors_ok p \<Longrightarrow> cursors_ok (parser_append p ch)"
  using size_t_sub1 [of "buf_size p"]
  by (auto simp: cursors_ok_def parser_append_def)

lemma cursors_ok_commit:
  "cursors_ok p \<Longrightarrow> cursors_ok (p\<lparr>buf_current := buf_used p\<rparr>)"
  by (simp add: cursors_ok_def)

lemma cursors_ok_response_type:
  "cursors_ok p \<Longrightarrow> cursors_ok (snd (response_type p line))"
  by (auto simp: cursors_ok_def response_type_def Let_def invoke_def split: option.splits)

lemma cursors_ok_discard: "cursors_ok p \<Longrightarrow> cursors_ok (discard_line p)"
  by (auto simp: cursors_ok_def discard_line_def Let_def)

lemma cursors_ok_invoke: "cursors_ok p \<Longrightarrow> cursors_ok (invoke c p)"
  by (auto simp: cursors_ok_def invoke_def)

lemma cursors_ok_reset: "cursors_ok p \<Longrightarrow> cursors_ok (at_parser_reset p)"
  by (auto simp: cursors_ok_def at_parser_reset_def)

lemma cursors_ok_store_line: "cursors_ok p \<Longrightarrow> cursors_ok (store_line type p)"
  by (simp add: store_line_def Let_def cursors_ok_discard cursors_ok_commit)

lemma cursors_ok_act_on_type: "cursors_ok p \<Longrightarrow> cursors_ok (act_on_type type p)"
  by (simp add: act_on_type_def Let_def cursors_ok_reset cursors_ok_invoke)

lemma cursors_ok_terminate: "cursors_ok (terminate_line p) = cursors_ok p"
  by (simp add: terminate_line_def)

lemma cursors_ok_handle_line: "cursors_ok p \<Longrightarrow> cursors_ok (parser_handle_line p)"
  by (simp add: parser_handle_line_steps Let_def cursors_ok_discard cursors_ok_invoke
        cursors_ok_act_on_type cursors_ok_store_line cursors_ok_response_type
        cursors_ok_terminate)

lemma cursors_ok_separator:
  "cursors_ok p \<Longrightarrow>
     cursors_ok ((parser_append p ch)\<lparr>buf_current := buf_used (parser_append p ch)\<rparr>)"
  by (rule cursors_ok_commit) (rule cursors_ok_append)

lemma cursors_ok_line_byte: "cursors_ok p \<Longrightarrow> cursors_ok (feed_line_byte p ch)"
  by (simp add: feed_line_byte_def Let_def cursors_ok_handle_line cursors_ok_append
        cursors_ok_separator)

lemma cursors_ok_collect: "cursors_ok p \<Longrightarrow> cursors_ok (collect_byte p ch)"
  by (simp add: collect_byte_def cursors_ok_append cursors_ok_separator)

lemma cursors_ok_raw_byte: "cursors_ok p \<Longrightarrow> cursors_ok (feed_raw_byte p ch)"
  by (simp add: feed_raw_byte_def Let_def cursors_ok_append cursors_ok_separator)

lemma cursors_ok_await: "cursors_ok p \<Longrightarrow> cursors_ok (at_parser_await_response p d sc)"
  by (simp add: at_parser_await_response_def)

lemma cursors_ok_alloc:
  "1 \<le> bufsize \<Longrightarrow> at_parser_alloc c bufsize pr mp mb = Inr p0 \<Longrightarrow> cursors_ok p0"
  by (auto simp: at_parser_alloc_def at_parser_reset_def cursors_ok_def split: option.splits)

lemma cursors_ok_reachable: "p \<in> reachable p0 \<Longrightarrow> cursors_ok p0 \<Longrightarrow> cursors_ok p"
  by (induction rule: reachable.induct)
     (simp_all add: cursors_ok_reset cursors_ok_await cursors_ok_line_byte cursors_ok_raw_byte
        cursors_ok_collect)

lemma append_outside:
  "1 \<le> buf_size p \<Longrightarrow> buf_size p - 1 \<le> i \<Longrightarrow> buf (parser_append p ch) i = buf p i"
  using size_t_sub1 [of "buf_size p"] by (auto simp: parser_append_def)

text \<open>
  C4. On a parser allocated with \<open>bufsize \<ge> 1\<close>, in every state it goes through, whatever
  the calls of \<open>at_parser_feed\<close>, \<open>at_parser_await_response\<close> and \<open>at_parser_reset\<close>:
  \<open>buf_current \<le> buf_used < buf_size\<close>, now and at every invocation of a callback so far;
  an append leaves every byte at an index \<open>\<ge> buf_size - 1\<close> as it was; and a call of
  \<open>at_parser_feed\<close> that returns leaves the parser in such a state again.
\<close>

theorem buffer_cursor_invariant:
  assumes "1 \<le> bufsize"
    and "at_parser_alloc cbs' bufsize priv' malloc_parser malloc_buf = Inr p0"
    and "p \<in> reachable p0"
  shows "buf_current p \<le> buf_used p \<and> buf_used p < buf_size p \<and> buf_size p = bufsize
    \<and> list_all (\<lambda>(c, cur, used). cur \<le> used \<and> used < bufsize) (calls p)
    \<and> (\<forall>ch i. bufsize - 1 \<le> i \<longrightarrow> buf (parser_append p ch) i = buf p i)
    \<and> (\<forall>data len p'. at_parser_feed p data len = Some (Inr p') \<longrightarrow> p' \<in> reachable p0)"
proof -
  have size: "buf_size p = bufsize"
    using instance_reachable [OF assms(3)] alloc_fields [OF assms(2)] by simp
  have "cursors_ok p"
    using assms by (blast intro: cursors_ok_reachable cursors_ok_alloc)
  then have "buf_current p \<le> buf_used p" "buf_used p < bufsize"
    "list_all (\<lambda>(c, cur, used). cur \<le> used \<and> used < bufsize) (calls p)"
    by (simp_all add: cursors_ok_def size)
  moreover have "\<forall>ch i. bufsize - 1 \<le> i \<longrightarrow> buf (parser_append p ch) i = buf p i"
    using append_outside [of p] assms(1) size by simp
  moreover have "\<forall>data len p'. at_parser_feed p data len = Some (Inr p') \<longrightarrow> p' \<in> reachable p0"
    using feed_loop_reachable [OF _ assms(3)] by (simp add: at_parser_feed_def)
  ultimately show ?thesis using size by simp
qed

lemma reachable_A: "feed_line_byte (new_parser 4) (CHR ''A'') \<in> reachable (new_parser 4)"
  by (rule reachable.line_byte [OF reachable.start]) (simp_all add: new_parser_def)

theorem buffer_cursor_invariant_witness:
  "(1::nat) \<le> 4
   \<and> at_parser_alloc no_callbacks 4 0 (Some raw_parser) (Some raw_block) = Inr (new_parser 4)
   \<and> feed_line_byte (new_parser 4) (CHR ''A'') \<in> reachable (new_parser 4)
   \<and> buf_current (feed_line_byte (new_parser 4) (CHR ''A''))
        \<le> buf_used (feed_line_byte (new_parser 4) (CHR ''A''))
   \<and> buf_used (feed_line_byte (new_parser 4) (CHR ''A'')) < 4
   \<and> buf_used (feed_line_byte (new_parser 4) (CHR ''A'')) = 1"
proof -
  have h1: "(1::nat) \<le> 4" by simp
  have used: "buf_used (feed_line_byte (new_parser 4) (CHR ''A'')) = 1"
    by (simp add: feed_line_byte_def new_parser_def parser_append_def size_t_of_int_def
          CR_def LF_def Let_def)
  show ?thesis
    using buffer_cursor_invariant [OF h1 new_parser_alloc reachable_A] h1 new_parser_alloc
      reachable_A used
    by simp
qed

subsection \<open>Evaluating the loop\<close>

lemma feed_loop_0: "feed_loop p data 0 = Some (Inr p)"
  by (subst feed_loop.simps) simp

lemma feed_loop_line:
  "0 < len \<Longrightarrow> state p \<noteq> STATE_RAWDATA \<Longrightarrow> state p \<noteq> STATE_HEXDATA \<Longrightarrow>
     feed_loop p (ch # data) len = feed_loop (feed_line_byte p ch) data (len - 1)"
  by (subst feed_loop.simps) (simp split: at_parser_state.splits)

lemma feed_loop_raw:
  "0 < len \<Longrightarrow> state p = STATE_RAWDATA \<Longrightarrow>
     feed_loop p (ch # data) len = feed_loop (feed_raw_byte p ch) data len"
  by (subst feed_loop.simps) simp

lemma feed_loop_past_end:
  "0 < len \<Longrightarrow> state p \<noteq> STATE_HEXDATA \<Longrightarrow> feed_loop p [] len = Some (Inl Read_past_end)"
  by (subst feed_loop.simps) (simp split: at_parser_state.splits)

lemma feed_loop_hex_returns:
  assumes "feed_loop p data len = Some r"
  shows "state p = STATE_HEXDATA \<Longrightarrow> len = 0"
  using assms by (induction rule: feed_loop_induct) simp_all

lemma feed_loop_hex: "0 < len \<Longrightarrow> state p = STATE_HEXDATA \<Longrightarrow> feed_loop p data len = None"
  using feed_loop_hex_returns [of p data len] by (cases "feed_loop p data len") auto

lemmas feed_eval = at_parser_feed_def feed_loop_0 feed_loop_line feed_loop_raw feed_loop_past_end feed_loop_hex

subsection \<open>Reset\<close>

text \<open>
  C9, as stated, fails: \<open>at_parser_reset\<close> does not touch the hex nibble flag. A new parser
  whose flag happens to be 0, armed with a scanner that announces hex data and fed one
  line, has the flag at \<open>-1\<close> after a reset.
\<close>

theorem reset_nibble_counterexample:
  "map_option (nibble \<circ> at_parser_reset)
     (returned (at_parser_feed
        (at_parser_await_response (new_parser 8) False (Some hex_scanner)) [CHR ''X'', LF] 2))
     = Some (- 1)
   \<and> nibble (new_parser 8) = 0"
  by (simp add: eval_defs feed_eval hex_scanner_def)

text \<open>
  C9, amended. After any sequence of calls on a new parser, \<open>at_parser_reset\<close> leaves the
  parser as it was after allocation (state IDLE, no per-command scanner, both cursors and
  \<open>data_left\<close> zero, the same callbacks, context and buffer size) except for the hex nibble
  flag and the bytes of the buffer, which it leaves as they are, and the record of the
  callbacks invoked so far.
\<close>

theorem reset_round_trip:
  assumes "at_parser_alloc cbs' bufsize priv' malloc_parser malloc_buf = Inr p0"
    and "p \<in> reachable p0"
  shows "at_parser_reset p = p0\<lparr>nibble := nibble p, buf := buf p, calls := calls p\<rparr>"
  using instance_reachable [OF assms(2)] alloc_fields [OF assms(1)]
  by (intro at_parser.equality) (simp_all add: at_parser_reset_def)

theorem reset_round_trip_witness:
  "at_parser_alloc no_callbacks 4 0 (Some raw_parser) (Some raw_block) = Inr (new_parser 4)
   \<and> feed_line_byte (new_parser 4) (CHR ''A'') \<in> reachable (new_parser 4)
   \<and> at_parser_reset (feed_line_byte (new_parser 4) (CHR ''A'')) =
       (new_parser 4)\<lparr>nibble := nibble (feed_line_byte (new_parser 4) (CHR ''A'')),
                      buf := buf (feed_line_byte (new_parser 4) (CHR ''A'')),
                      calls := calls (feed_line_byte (new_parser 4) (CHR ''A''))\<rparr>
   \<and> buf (feed_line_byte (new_parser 4) (CHR ''A'')) 0 = CHR ''A''
   \<and> buf (at_parser_reset (feed_line_byte (new_parser 4) (CHR ''A''))) 0 = CHR ''A''
   \<and> buf (new_parser 4) 0 = CHR ''?''"
proof -
  have "buf (feed_line_byte (new_parser 4) (CHR ''A'')) 0 = CHR ''A''"
    "buf (at_parser_reset (feed_line_byte (new_parser 4) (CHR ''A''))) 0 = CHR ''A''"
    "buf (new_parser 4) 0 = CHR ''?''"
    by (simp_all add: eval_defs)
  then show ?thesis
    using reset_round_trip [OF new_parser_alloc reachable_A] new_parser_alloc reachable_A
    by simp
qed

subsection \<open>The data prompt\<close>

text \<open>
  C2, as stated, fails: the generic scanner classifies the prompt as FINAL\_OK, the line is
  discarded, and \<open>handle_response\<close> is given the empty payload, of length 0.
\<close>

theorem dataprompt_payload_counterexample:
  "map_option (map fst \<circ> calls)
     (returned (at_parser_feed (at_parser_await_response (new_parser 8) True None) ''> '' 2))
   = Some [Handle_response '''']"
  by (simp add: eval_defs feed_eval)

lemma generic_prompt: "generic_line_scanner ''> '' = AT_RESPONSE_FINAL_OK"
  by (simp add: generic_line_scanner_builtin builtin_scanner_def)

text \<open>
  C2, amended. On a parser with an empty buffer of at least 3 bytes, armed with
  \<open>dataprompt = true\<close> and no per-command scanner, whose session scanner is absent or
  answers \<open>UNKNOWN\<close> on the prompt, feeding the two bytes \<open>> \<close> returns, invokes
  \<open>handle_response\<close> once, with the empty payload, after the session scanner if there is
  one, and leaves the parser in IDLE with an empty buffer.
\<close>

theorem dataprompt_delivery:
  assumes size: "3 \<le> buf_size p" "buf_size p \<le> 2 ^ 32"
    and empty: "buf_used p = 0" "buf_current p = 0"
    and defers: "classifier_chain [scan_line (cbs p)] ''> '' = AT_RESPONSE_UNKNOWN"
  shows "\<exists>p'. at_parser_feed (at_parser_await_response p True None) ''> '' 2 = Some (Inr p')
     \<and> calls p' = calls p
         @ (case scan_line (cbs p) of None \<Rightarrow> [] | Some c \<Rightarrow> [(Scan_line ''> '', 0, 2)])
         @ [(Handle_response [], 0, 0)]
     \<and> state p' = STATE_IDLE \<and> buf_used p' = 0 \<and> buf_current p' = 0"
proof -
  have room: "size_t_of_int (int (buf_size p) - 1) = buf_size p - 1"
    using size by (simp add: size_t_of_int_def nat_diff_distrib)
  define p1 where "p1 = feed_line_byte (at_parser_await_response p True None) (CHR ''>'')"
  have p1: "p1 = p\<lparr>per_command_scanner := None, state := STATE_DATAPROMPT,
                   buf := (buf p)(0 := CHR ''>''), buf_used := 1\<rparr>"
    using size empty
    by (simp add: p1_def feed_line_byte_def at_parser_await_response_def parser_append_def room
          CR_def LF_def Let_def)
  define p2 where "p2 = (parser_append p1 (CHR '' ''))"
  have p2: "p2 = p\<lparr>per_command_scanner := None, state := STATE_DATAPROMPT,
                   buf := (buf p)(0 := CHR ''>'', 1 := CHR '' ''), buf_used := 2\<rparr>"
    using size empty by (simp add: p2_def p1 parser_append_def room)
  have f1: "buf_used p1 = 1" "buf_current p1 = 0"
    using empty by (simp_all add: p1)
  have f2: "state p2 = STATE_DATAPROMPT" "buf_used p2 = 2" "memcmp_buf p2 ''> '' 2"
    by (simp_all add: p2 memcmp_buf_def buf_bytes_def upt_conv_Cons)
  have "feed_line_byte p1 (CHR '' '') =
      (if state p2 = STATE_DATAPROMPT \<and> buf_used p2 = 2 \<and> memcmp_buf p2 ''> '' 2
       then parser_handle_line p2 else p2)"
    unfolding p2_def by (simp add: feed_line_byte_def f1 CR_def LF_def Let_def)
  then have step2: "feed_line_byte p1 (CHR '' '') = parser_handle_line p2"
    by (simp only: f2 simp_thms if_True)
  have line: "current_line p2 = ''> ''"
    using empty by (simp add: current_line_def p2 buf_bytes_def upt_conv_Cons)
  have type: "fst (response_type (terminate_line p2) ''> '') = AT_RESPONSE_FINAL_OK"
    using defers
    by (auto simp: response_type_def Let_def generic_prompt p2 terminate_line_def
          AT_RESPONSE_UNKNOWN_def split: option.splits if_splits)
  have calls: "calls (snd (response_type (terminate_line p2) ''> '')) = calls p
         @ (case scan_line (cbs p) of None \<Rightarrow> [] | Some c \<Rightarrow> [(Scan_line ''> '', 0, 2)])"
    using empty
    by (auto simp: response_type_def Let_def p2 terminate_line_def invoke_def
          AT_RESPONSE_UNKNOWN_def split: option.splits)
  have res: "calls (parser_handle_line p2) = calls p
         @ (case scan_line (cbs p) of None \<Rightarrow> [] | Some c \<Rightarrow> [(Scan_line ''> '', 0, 2)])
         @ [(Handle_response [], 0, 0)]
     \<and> state (parser_handle_line p2) = STATE_IDLE \<and> buf_used (parser_handle_line p2) = 0
     \<and> buf_current (parser_handle_line p2) = 0"
    using empty
    apply (simp add: parser_handle_line_steps line type Let_def)
    apply (simp add: p2 AT_RESPONSE_FINAL_OK_def AT_RESPONSE_URC_def terminate_line_def)
    apply (simp add: act_on_type_def store_line_def discard_line_def Let_def
        AT_RESPONSE_FINAL_OK_def AT_RESPONSE_TYPE_MASK_def at_parser_reset_def invoke_def
        buf_bytes_def calls [unfolded terminate_line_def p2, simplified])
    done
  have s0: "state (at_parser_await_response p True None) = STATE_DATAPROMPT"
    by (simp add: at_parser_await_response_def)
  have s1: "state p1 = STATE_DATAPROMPT"
    by (simp add: p1)
  have r1: "feed_loop (at_parser_await_response p True None) ''> '' 2 = feed_loop p1 '' '' 1"
    using feed_loop_line [of 2 "at_parser_await_response p True None" "CHR ''>''" "'' ''"] s0
    by (simp add: p1_def)
  have r2: "feed_loop p1 '' '' 1 = feed_loop (parser_handle_line p2) [] 0"
    using feed_loop_line [of 1 p1 "CHR '' ''" "[]"] s1 by (simp add: step2)
  have run: "at_parser_feed (at_parser_await_response p True None) ''> '' 2
      = Some (Inr (parser_handle_line p2))"
    by (simp only: at_parser_feed_def r1 r2 feed_loop_0)
  show ?thesis using run res by blast
qed



theorem dataprompt_delivery_witness:
  "3 \<le> buf_size (new_parser 8) \<and> buf_size (new_parser 8) \<le> 2 ^ 32
   \<and> buf_used (new_parser 8) = 0 \<and> buf_current (new_parser 8) = 0
   \<and> classifier_chain [scan_line (cbs (new_parser 8))] ''> '' = AT_RESPONSE_UNKNOWN
   \<and> map_option state
        (returned (at_parser_feed (at_parser_await_response (new_parser 8) True None) ''> '' 2))
       = Some STATE_IDLE"
proof -
  have h: "3 \<le> buf_size (new_parser 8)" "buf_size (new_parser 8) \<le> 2 ^ 32"
    "buf_used (new_parser 8) = 0" "buf_current (new_parser 8) = 0"
    "classifier_chain [scan_line (cbs (new_parser 8))] ''> '' = AT_RESPONSE_UNKNOWN"
    by (simp_all add: new_parser_def no_callbacks_def)
  from dataprompt_delivery [OF h] obtain p' where
    "at_parser_feed (at_parser_await_response (new_parser 8) True None) ''> '' 2 = Some (Inr p')"
    "state p' = STATE_IDLE"
    by blast
  then show ?thesis using h by (simp add: returned_def)
qed

subsection \<open>Feeding in the line states\<close>

text \<open>
  As long as no scanner announces raw or hex data the parser stays in the line states,
  where a pass of the loop consumes one byte: a call returns, having consumed \<open>len\<close>
  bytes, and the bytes of a stream fed at once or in any partition into chunks leave the
  same parser, with the same callbacks invoked.
\<close>

lemma builtin_category:
  "builtin_scanner line AND AT_RESPONSE_TYPE_MASK \<noteq> AT_RESPONSE_RAWDATA_FOLLOWS'"
  "builtin_scanner line AND AT_RESPONSE_TYPE_MASK \<noteq> AT_RESPONSE_HEXDATA_FOLLOWS'"
  by (simp_all add: builtin_scanner_def AT_RESPONSE_URC_def AT_RESPONSE_FINAL_def
        AT_RESPONSE_FINAL_OK_def AT_RESPONSE_INTERMEDIATE_def AT_RESPONSE_TYPE_MASK_def
        AT_RESPONSE_RAWDATA_FOLLOWS'_def AT_RESPONSE_HEXDATA_FOLLOWS'_def)

lemma response_type_category:
  assumes "no_data_follows (per_command_scanner p)" "no_data_follows (scan_line (cbs p))"
  shows "fst (response_type p line) AND AT_RESPONSE_TYPE_MASK \<noteq> AT_RESPONSE_RAWDATA_FOLLOWS' \<and>
         fst (response_type p line) AND AT_RESPONSE_TYPE_MASK \<noteq> AT_RESPONSE_HEXDATA_FOLLOWS'"
  using assms builtin_category [of line]
  by (auto simp: response_type_def Let_def no_data_follows_def generic_line_scanner_builtin
        AT_RESPONSE_UNKNOWN_def split: option.splits)

lemma no_data_follows_None [simp]: "no_data_follows None"
  by (simp add: no_data_follows_def)

lemma line_mode_act_on_type:
  "line_mode p \<Longrightarrow> type AND AT_RESPONSE_TYPE_MASK \<noteq> AT_RESPONSE_RAWDATA_FOLLOWS' \<Longrightarrow>
     type AND AT_RESPONSE_TYPE_MASK \<noteq> AT_RESPONSE_HEXDATA_FOLLOWS' \<Longrightarrow>
     line_mode (act_on_type type p)"
  by (simp add: act_on_type_def Let_def line_mode_def at_parser_reset_def invoke_def)

lemma line_mode_cong:
  "state q = state p \<Longrightarrow> per_command_scanner q = per_command_scanner p \<Longrightarrow> cbs q = cbs p \<Longrightarrow>
     line_mode q = line_mode p"
  by (simp add: line_mode_def)

lemma store_line_fields [simp]:
  "state (store_line t p) = state p"
  "per_command_scanner (store_line t p) = per_command_scanner p"
  by (simp_all add: store_line_def Let_def discard_line_def)

lemma line_mode_handle_line:
  assumes "line_mode p"
  shows "line_mode (parser_handle_line p)"
proof (cases "buf_used p = buf_current p")
  case True
  with assms show ?thesis by (simp add: parser_handle_line_steps)
next
  case False
  define q where "q = snd (response_type (terminate_line p) (current_line p))"
  define t where "t = fst (response_type (terminate_line p) (current_line p))"
  have q: "line_mode q"
    using assms unfolding q_def
    by (subst line_mode_cong [of _ p]) (simp_all add: terminate_line_def)
  have cat: "t AND AT_RESPONSE_TYPE_MASK \<noteq> AT_RESPONSE_RAWDATA_FOLLOWS'"
    "t AND AT_RESPONSE_TYPE_MASK \<noteq> AT_RESPONSE_HEXDATA_FOLLOWS'"
    using assms response_type_category [of "terminate_line p" "current_line p"]
    by (simp_all add: t_def line_mode_def terminate_line_def)
  have 1: "line_mode (discard_line (invoke c q))" for c
    using q by (subst line_mode_cong [of _ q]) (simp_all add: discard_line_def Let_def invoke_def)
  have "line_mode (store_line t q)"
    using q by (subst line_mode_cong [of _ q]) simp_all
  then have 2: "line_mode (act_on_type t (store_line t q))"
    using cat by (rule line_mode_act_on_type)
  show ?thesis
    using False 1 2 by (simp add: parser_handle_line_steps Let_def q_def t_def)
qed

lemma line_mode_line_byte: "line_mode p \<Longrightarrow> line_mode (feed_line_byte p ch)"
proof -
  assume p: "line_mode p"
  define q where "q =
     (if ch \<noteq> CR \<and> ch \<noteq> LF then
        parser_append
          (if buf_used p > 0 \<and> buf_current p = buf_used p
           then (parser_append p LF)\<lparr>buf_current := buf_used (parser_append p LF)\<rparr>
           else p) ch
      else p)"
  have "line_mode q"
    using p by (subst line_mode_cong [of _ p]) (simp_all add: q_def)
  moreover then have "line_mode (parser_handle_line q)" by (rule line_mode_handle_line)
  moreover have "feed_line_byte p ch =
      (if ch = LF \<or> (state q = STATE_DATAPROMPT \<and> buf_used q = 2 \<and> memcmp_buf q ''> '' 2)
       then parser_handle_line q else q)"
    by (simp only: feed_line_byte_def Let_def q_def)
  ultimately show ?thesis by simp
qed

lemma feed_loop_line_mode:
  "line_mode p \<Longrightarrow> n \<le> length data \<Longrightarrow>
     feed_loop p data n = Some (Inr (foldl feed_line_byte p (take n data)))"
proof (induction n arbitrary: p data)
  case 0
  then show ?case by (simp add: feed_loop_0)
next
  case (Suc n)
  then obtain ch rest where data: "data = ch # rest" by (cases data) auto
  from Suc.prems have st: "state p \<noteq> STATE_RAWDATA" "state p \<noteq> STATE_HEXDATA"
    by (simp_all add: line_mode_def)
  have "feed_loop p data (Suc n) = feed_loop (feed_line_byte p ch) rest n"
    using feed_loop_line [of "Suc n" p ch rest] st by (simp add: data)
  also have "\<dots> = Some (Inr (foldl feed_line_byte (feed_line_byte p ch) (take n rest)))"
    using Suc.prems by (intro Suc.IH line_mode_line_byte) (simp_all add: data)
  finally show ?case by (simp add: data)
qed

lemma line_mode_foldl: "line_mode p \<Longrightarrow> line_mode (foldl feed_line_byte p bytes)"
  by (induction bytes arbitrary: p) (simp_all add: line_mode_line_byte)

lemma feed_chunks_line_mode:
  assumes "line_mode p"
  shows "at_parser_feed p (xs @ ys) (length xs + length ys) =
           feed_chunks p [(xs @ ys, length xs), (ys, length ys)]"
proof -
  have whole: "at_parser_feed p (xs @ ys) (length xs + length ys) =
      Some (Inr (foldl feed_line_byte p (xs @ ys)))"
    using feed_loop_line_mode [OF assms, of "length xs + length ys" "xs @ ys"]
    by (simp add: at_parser_feed_def)
  have first: "at_parser_feed p (xs @ ys) (length xs) = Some (Inr (foldl feed_line_byte p xs))"
    using feed_loop_line_mode [OF assms, of "length xs" "xs @ ys"]
    by (simp add: at_parser_feed_def)
  have second: "at_parser_feed (foldl feed_line_byte p xs) ys (length ys) =
      Some (Inr (foldl feed_line_byte (foldl feed_line_byte p xs) ys))"
    using feed_loop_line_mode [OF line_mode_foldl [OF assms], of "length ys" ys xs]
    by (simp add: at_parser_feed_def)
  show ?thesis by (simp add: whole first second)
qed

lemma feed_partition_line_mode:
  "line_mode p \<Longrightarrow>
     feed_chunks p (map (\<lambda>c. (c, length c)) chunks) =
       at_parser_feed p (concat chunks) (length (concat chunks))"
proof (induction chunks arbitrary: p)
  case Nil
  then show ?case by (simp add: at_parser_feed_def feed_loop_0)
next
  case (Cons c chunks)
  have first: "at_parser_feed p c (length c) = Some (Inr (foldl feed_line_byte p c))"
    using feed_loop_line_mode [OF Cons.prems, of "length c" c] by (simp add: at_parser_feed_def)
  have mode: "line_mode (foldl feed_line_byte p c)"
    using Cons.prems by (rule line_mode_foldl)
  have "feed_chunks p (map (\<lambda>c. (c, length c)) (c # chunks)) =
      at_parser_feed (foldl feed_line_byte p c) (concat chunks) (length (concat chunks))"
    using Cons.IH [OF mode] by (simp add: first)
  also have "\<dots> = Some (Inr (foldl feed_line_byte (foldl feed_line_byte p c) (concat chunks)))"
    using feed_loop_line_mode [OF mode, of "length (concat chunks)" "concat chunks"]
    by (simp add: at_parser_feed_def)
  also have "\<dots> = at_parser_feed p (concat (c # chunks)) (length (concat (c # chunks)))"
    using feed_loop_line_mode [OF Cons.prems, of "length (concat (c # chunks))" "concat (c # chunks)"]
    by (simp add: at_parser_feed_def)
  finally show ?case .
qed

lemma idle_line_is_urc:
  assumes "state p = STATE_IDLE" and "buf_used p \<noteq> buf_current p"
  shows "calls (parser_handle_line p) =
           calls (snd (response_type (terminate_line p) (current_line p)))
           @ [(Handle_urc (current_line p), buf_current p, buf_used p)]"
  using assms
  by (simp add: parser_handle_line_steps Let_def discard_line_def invoke_def terminate_line_def)

subsection \<open>Feeding in the data states\<close>

text \<open>
  C10 fails on the code. In HEXDATA a pass of the loop reads nothing and leaves \<open>len\<close> as
  it is: a call with a byte to consume never returns. In RAWDATA a pass reads a byte and
  leaves \<open>len\<close> as it is: a call given one byte reads past it.
\<close>

theorem feed_never_returns_in_hexdata:
  "feed_chunks (at_parser_await_response (new_parser 8) False (Some hex_scanner))
     [([CHR ''X'', LF], 2), (''A'', 1)] = None
   \<and> map_option state (returned (feed_chunks (at_parser_await_response (new_parser 8) False (Some hex_scanner))
     [([CHR ''X'', LF], 2)])) = Some STATE_HEXDATA
   \<and> feed_chunks (at_parser_await_response (new_parser 8) False (Some raw_scanner))
     [([CHR ''+'', CHR ''R'', LF], 3), (''a'', 1)] = Some (Inl Read_past_end)"
  by (simp add: eval_defs feed_eval hex_scanner_def raw_scanner_def)

text \<open>
  C1 fails on the code, in RAWDATA. A parser in that state with one byte to capture is
  given the five bytes a, O, K, newline, Z, the first four to consume. In one call it captures \<open>a\<close>, reads the
  line OK, delivers the response, and consumes \<open>Z\<close> besides. In a call on the first byte
  and a call on the next three, the first call consumes \<open>O\<close> besides, the second reads
  the line OOK and no response is delivered.
\<close>

theorem chunked_feed_differs:
  "map_option (map fst \<circ> calls)
     (returned (feed_chunks (at_parser_await_response (new_parser 16) False (Some raw_scanner))
        [([CHR ''+'', CHR ''R'', LF], 3), ([CHR ''a'', CHR ''O'', CHR ''K'', LF, CHR ''Z''], 4)]))
   = Some [Per_command_scanner ''+R'', Per_command_scanner ''OK'', Handle_response [CHR ''+'', CHR ''R'', CHR ''a'', LF]]
  \<and> map_option (map fst \<circ> calls)
     (returned (feed_chunks (at_parser_await_response (new_parser 16) False (Some raw_scanner))
        [([CHR ''+'', CHR ''R'', LF], 3), ([CHR ''a'', CHR ''O'', CHR ''K'', LF, CHR ''Z''], 1),
         ([CHR ''O'', CHR ''K'', LF, CHR ''Z''], 3)]))
   = Some [Per_command_scanner ''+R'', Per_command_scanner ''OOK'']"
  by (simp add: eval_defs feed_eval raw_scanner_def)



subsection \<open>The lines in the buffer\<close>




lemma bytes_upd_outside: "j \<le> k \<Longrightarrow> map (f(k := c)) [i..<j] = map f [i..<j]"
  by simp




lemma buf_bytes_cong:
  "(\<And>k. k < j \<Longrightarrow> buf q k = buf p k) \<Longrightarrow> buf_bytes q i j = buf_bytes p i j"
  by (simp add: buf_bytes_def)

lemma holds_lines_cong:
  assumes c: "buf_current q = buf_current p" and u: "buf_used q = buf_used p"
    and s: "buf_size q = buf_size p"
    and same: "\<And>i. i < buf_used p \<Longrightarrow> buf q i = buf p i"
  shows "holds_lines ls q = holds_lines ls p"
proof (cases "buf_current p \<le> buf_used p")
  case True
  have "buf_bytes q 0 (buf_current p) = buf_bytes p 0 (buf_current p)"
    using True by (intro buf_bytes_cong) (simp add: same)
  moreover have "buf_bytes q 0 (buf_used p) = buf_bytes p 0 (buf_used p)"
    by (intro buf_bytes_cong) (simp add: same)
  moreover have "buf_bytes q (buf_current p) (buf_used p) = buf_bytes p (buf_current p) (buf_used p)"
    by (intro buf_bytes_cong) (simp add: same)
  ultimately show ?thesis
    unfolding holds_lines_def current_line_def no_room_def c u s by (simp only:)
next
  case False
  then show ?thesis
    unfolding holds_lines_def c u by simp
qed

lemma holds_terminate [simp]: "holds_lines ls (terminate_line p) = holds_lines ls p"
  by (rule holds_lines_cong) (simp_all add: terminate_line_def)

lemma holds_response_type [simp]:
  "holds_lines ls (snd (response_type p line)) = holds_lines ls p"
  by (rule holds_lines_cong) simp_all

lemma holds_invoke [simp]: "holds_lines ls (invoke c p) = holds_lines ls p"
  by (rule holds_lines_cong) (simp_all add: invoke_def)

lemma holds_upd [simp]:
  "holds_lines ls (p\<lparr>state := s\<rparr>) = holds_lines ls p"
  "holds_lines ls (p\<lparr>data_left := d\<rparr>) = holds_lines ls p"
  "holds_lines ls (p\<lparr>nibble := k\<rparr>) = holds_lines ls p"
  "holds_lines ls (p\<lparr>per_command_scanner := sc\<rparr>) = holds_lines ls p"
  by (simp_all add: holds_lines_def current_line_def no_room_def buf_bytes_def)



lemma discard_fields [simp]:
  "buf_current (discard_line p) = buf_current p - 1"
  "buf_used (discard_line p) = buf_current p - 1"
  "buf (discard_line p) = buf p"
  "state (discard_line p) = state p"
  "calls (discard_line p) = calls p"
  by (simp_all add: discard_line_def Let_def)





























section \<open>Properties of the dispatcher\<close>

lemma xSemaphoreTake_fields:
  "open (snd (xSemaphoreTake f chan)) = (if xSem chan then open chan else open (f chan))"
  "waiting (snd (xSemaphoreTake f chan)) = (if xSem chan then waiting chan else waiting (f chan))"
  "xUART (snd (xSemaphoreTake f chan)) = (if xSem chan then xUART chan else xUART (f chan))"
  by (simp_all add: xSemaphoreTake_def Let_def)

lemma wait_loop_returns:
  "0 \<le> t \<Longrightarrow> \<exists>w k'. wait_loop others k t chan = Some (w, k')"
proof (induction "nat t" arbitrary: t k chan)
  case 0
  then have "t = 0" by simp
  then show ?case by (subst wait_loop.simps) simp
next
  case (Suc n)
  then have "n = nat (t - 1)" "0 \<le> t - 1" by simp_all
  from Suc.hyps(1) [OF this] obtain w k' where
    "wait_loop others (k + 1) (t - 1) (snd (xSemaphoreTake (others k) chan)) = Some (w, k')"
    by blast
  then show ?case
    by (subst wait_loop.simps) (auto split: prod.splits)
qed

lemma wait_loop_induct [consumes 1, case_names stop taken again]:
  assumes run: "wait_loop others k t chan = Some r"
    and stop: "\<And>k t chan. \<not> (t \<noteq> 0 \<and> open chan \<and> waiting chan) \<Longrightarrow> P k t chan (chan, k)"
    and taken:
      "\<And>k t chan. t \<noteq> 0 \<Longrightarrow> open chan \<Longrightarrow> waiting chan \<Longrightarrow>
         fst (xSemaphoreTake (others k) chan) \<Longrightarrow>
         P k t chan (snd (xSemaphoreTake (others k) chan), k + 1)"
    and again:
      "\<And>k t chan r. t \<noteq> 0 \<Longrightarrow> open chan \<Longrightarrow> waiting chan \<Longrightarrow>
         \<not> fst (xSemaphoreTake (others k) chan) \<Longrightarrow>
         P (k + 1) (t - 1) (snd (xSemaphoreTake (others k) chan)) r \<Longrightarrow> P k t chan r"
  shows "P k t chan r"
proof -
  have "others = others \<longrightarrow> P k t chan r"
  proof (rule wait_loop.raw_induct [where P = "\<lambda>o' k t chan r. o' = others \<longrightarrow> P k t chan r",
      OF _ run])
  fix f o' k t chan r
  assume IH: "\<And>o' k t chan r. f o' k t chan = Some r \<Longrightarrow> o' = others \<longrightarrow> P k t chan r"
    and step:
      "(if t \<noteq> 0 \<and> open chan \<and> waiting chan
        then case xSemaphoreTake (o' k) chan of
             (taken, chan) \<Rightarrow>
               if taken then Some (chan, k + 1) else f o' (k + 1) (t - 1) chan
        else Some (chan, k)) = Some r"
  show "o' = others \<longrightarrow> P k t chan r"
  proof
    assume o': "o' = others"
    show "P k t chan r"
    proof (cases "t \<noteq> 0 \<and> open chan \<and> waiting chan")
      case False
      with step stop show ?thesis by auto
    next
      case True
      show ?thesis
      proof (cases "fst (xSemaphoreTake (others k) chan)")
        case t: True
        with True step o' taken [of t chan k] show ?thesis
          by (auto split: prod.splits)
      next
        case f: False
        with True step o' have "f others (k + 1) (t - 1) (snd (xSemaphoreTake (others k) chan)) = Some r"
          by (auto split: prod.splits)
        from IH [OF this] f True show ?thesis by (auto intro: again)
      qed
    qed
  qed
  qed
  then show ?thesis by simp
qed

lemma wait_loop_xUART:
  assumes "wait_loop others k t chan = Some r"
    and frame: "\<And>j c. xUART (others j c) = xUART c"
  shows "xUART (fst r) = xUART chan"
  using assms(1)
  by (induction rule: wait_loop_induct) (simp_all add: xSemaphoreTake_fields frame)

lemma reset_idem: "at_parser_reset (at_parser_reset p) = at_parser_reset p"
  by (simp add: at_parser_reset_def)

lemma at_command'_closed:
  "\<not> open chan \<Longrightarrow> at_command' chan dp data n others k = Some (None, chan, k)"
  by (simp add: at_command'_def)

lemma at_command'_open:
  "open chan \<Longrightarrow>
     at_command' chan dp data n others k =
       (case wait_loop others k (timeout chan) (armed chan dp data n) of
          None \<Rightarrow> None
        | Some (w, k') \<Rightarrow> Some (fst (resolve w), snd (resolve w), k'))"
  by (simp add: at_command'_def armed_def resolve_def Let_def xSemaphoreTake_def
        split: option.splits prod.splits)

lemma armed_fields:
  "xUART (armed chan dp data n) = xUART chan @ [take n data]"
  "timeout (armed chan dp data n) = timeout chan"
  by (simp_all add: armed_def xSemaphoreTake_def)

lemma resolve_facts:
  "command_scanner (snd (resolve w)) = None"
  "open (snd (resolve w)) = open w"
  "waiting (snd (resolve w)) = waiting w"
  "response (snd (resolve w)) = response w"
  "xUART (snd (resolve w)) = xUART w"
  "\<not> open w \<Longrightarrow> fst (resolve w) = None"
  "open w \<Longrightarrow> waiting w \<Longrightarrow> fst (resolve w) = None"
  "open w \<Longrightarrow> waiting w \<Longrightarrow> parser (snd (resolve w)) = at_parser_reset (parser w)"
  "open w \<Longrightarrow> \<not> waiting w \<Longrightarrow> fst (resolve w) = Some (response w)"
  by (simp_all add: resolve_def)

text \<open>
  C6, amended. \<open>_at_command\<close> returns null at once, changing nothing, when the channel
  is not open at entry: the per-command scanner then stays installed. When the channel is
  open and the timeout is not negative it returns, and whenever it returns on a channel
  open at entry the per-command scanner is cleared, and: if the channel was closed during
  the wait the result is null; if it is open and \<open>waiting\<close> is still true the parser has
  been reset, it is in IDLE, and the result is null; otherwise the result is the response
  buffer.
\<close>

theorem at_command_protocol:
  "(\<not> open chan \<longrightarrow> at_command' chan dp data n others k = Some (None, chan, k))
   \<and> (open chan \<longrightarrow> 0 \<le> timeout chan \<longrightarrow>
        (\<exists>r chan' k'. at_command' chan dp data n others k = Some (r, chan', k')))
   \<and> (\<forall>r chan' k'. open chan \<longrightarrow> at_command' chan dp data n others k = Some (r, chan', k') \<longrightarrow>
        command_scanner chan' = None
        \<and> (\<not> open chan' \<longrightarrow> r = None)
        \<and> (open chan' \<longrightarrow> waiting chan' \<longrightarrow>
             r = None \<and> parser chan' = at_parser_reset (parser chan')
             \<and> state (parser chan') = STATE_IDLE)
        \<and> (open chan' \<longrightarrow> \<not> waiting chan' \<longrightarrow> r = Some (response chan')))"
proof (intro conjI allI impI)
  assume "\<not> open chan"
  then show "at_command' chan dp data n others k = Some (None, chan, k)"
    by (rule at_command'_closed)
next
  assume o: "open chan" and "0 \<le> timeout chan"
  then obtain w k' where "wait_loop others k (timeout chan) (armed chan dp data n) = Some (w, k')"
    using wait_loop_returns by blast
  then show "\<exists>r chan' k'. at_command' chan dp data n others k = Some (r, chan', k')"
    by (simp add: at_command'_open [OF o])
next
  fix r chan' k'
  assume o: "open chan" and run: "at_command' chan dp data n others k = Some (r, chan', k')"
  then obtain w where w: "r = fst (resolve w)" "chan' = snd (resolve w)"
    by (auto simp: at_command'_open split: option.splits)
  show "command_scanner chan' = None" by (simp add: w resolve_facts)
  {
    assume "\<not> open chan'"
    then show "r = None" by (simp add: w resolve_facts)
  }
  {
    assume "open chan'" "\<not> waiting chan'"
    then show "r = Some (response chan')" by (simp add: w resolve_facts)
  }
  {
    assume "open chan'" "waiting chan'"
    then have *: "open w" "waiting w" by (simp_all add: w resolve_facts)
    then show "r = None" by (simp add: w resolve_facts)
    from * show "parser chan' = at_parser_reset (parser chan')"
      by (simp add: w resolve_facts reset_idem)
    from * show "state (parser chan') = STATE_IDLE"
      by (simp add: w resolve_facts at_parser_reset_def)
  }
qed

lemmas channel_eval = new_channel_def closed_channel_def quiet_def answers_def
  handle_response_def at_command'_def at_command_def xSemaphoreTake_def AT_COMMAND_LENGTH_def

lemma wait_loop_stop:
  "\<not> (t \<noteq> 0 \<and> open chan \<and> waiting chan) \<Longrightarrow> wait_loop others k t chan = Some (chan, k)"
  by (subst wait_loop.simps) auto

lemma wait_loop_step:
  "t \<noteq> 0 \<Longrightarrow> open chan \<Longrightarrow> waiting chan \<Longrightarrow>
     wait_loop others k t chan =
       (if fst (xSemaphoreTake (others k) chan)
        then Some (snd (xSemaphoreTake (others k) chan), k + 1)
        else wait_loop others (k + 1) (t - 1) (snd (xSemaphoreTake (others k) chan)))"
  by (subst wait_loop.simps) (simp split: prod.splits)

text \<open>
  C6, as stated, fails in its last sentence: on a channel that is not open at entry the
  per-command scanner is not cleared.
\<close>

theorem at_command_scanner_counterexample:
  "map_option (Option.is_none \<circ> command_scanner \<circ> fst \<circ> snd)
     (at_command' closed_channel False ''AT'' 2 quiet 0) = Some False"
  by (simp add: channel_eval)

theorem at_command_protocol_witness:
  "\<not> open closed_channel
   \<and> at_command' closed_channel False ''AT'' 2 quiet 0 = Some (None, closed_channel, 0)
   \<and> open new_channel \<and> 0 \<le> timeout new_channel
   \<and> map_option (\<lambda>(r, chan', k'). (r, state (parser chan'), k'))
        (at_command' new_channel False ''AT'' 2 quiet 0) = Some (None, STATE_IDLE, 2)
   \<and> map_option (\<lambda>(r, chan', k'). (r, waiting chan', k'))
        (at_command' new_channel True ''AT'' 2 (answers ''+CSQ: 21,0'') 0)
       = Some (Some ''+CSQ: 21,0'', False, 1)"
proof -
  have c: "\<not> open closed_channel" and o: "open new_channel" "0 \<le> timeout new_channel"
    by (simp_all add: channel_eval)
  have 1: "at_command' closed_channel False ''AT'' 2 quiet 0 = Some (None, closed_channel, 0)"
    using at_command_protocol [of closed_channel False "''AT''" 2 quiet 0] c by blast
  obtain r chan' k' where run: "at_command' new_channel False ''AT'' 2 quiet 0 = Some (r, chan', k')"
    using at_command_protocol [of new_channel False "''AT''" 2 quiet 0] o by blast
  have "k' = 2" "open chan'" "waiting chan'"
    using run by (auto simp: channel_eval wait_loop_step wait_loop_stop Let_def)
  then have 2: "r = None" "state (parser chan') = STATE_IDLE" "k' = 2"
    using at_command_protocol [of new_channel False "''AT''" 2 quiet 0] o run by blast+
  obtain r' chan'' k'' where
    run': "at_command' new_channel True ''AT'' 2 (answers ''+CSQ: 21,0'') 0 = Some (r', chan'', k'')"
    using at_command_protocol [of new_channel True "''AT''" 2 "answers ''+CSQ: 21,0''" 0] o
    by blast
  have f: "k'' = 1" "open chan''" "\<not> waiting chan''" "response chan'' = ''+CSQ: 21,0''"
    using run' by (auto simp: channel_eval wait_loop_step wait_loop_stop Let_def)
  then have 3: "r' = Some ''+CSQ: 21,0''"
    using at_command_protocol [of new_channel True "''AT''" 2 "answers ''+CSQ: 21,0''" 0] o run'
    by auto
  show ?thesis
    using c o 1 2 3 f run run' by simp
qed

lemma at_command_too_long:
  "int AT_COMMAND_LENGTH - 1 \<le> int (length text) \<Longrightarrow>
     at_command chan dp text others k = Some (None, chan, k)"
  by (simp add: at_command_def Let_def)

lemma at_command_fits:
  "length text < AT_COMMAND_LENGTH - 1 \<Longrightarrow>
     at_command chan dp text others k =
       at_command' chan dp (text @ [CR]) (length text + 1) others k"
  by (simp add: at_command_def Let_def AT_COMMAND_LENGTH_def nat_add_distrib)

lemma at_command_answered:
  assumes "open chan" "timeout chan \<noteq> 0" "length text < 79" "length resp < 63"
  shows "at_command chan False text (answers resp) k = Some (Some resp, answered text resp chan, k + 1)"
proof -
  let ?a = "armed chan False (text @ [CR]) (Suc (length text))"
  have a: "open ?a" "waiting ?a" "\<not> xSem ?a"
    using assms(1) by (simp_all add: armed_def xSemaphoreTake_def)
  have take: "xSemaphoreTake (answers resp k) ?a =
      (True, ?a\<lparr>response := resp, waiting := False, xSem := False\<rparr>)"
    using a assms(4) by (simp add: xSemaphoreTake_def answers_def handle_response_def Let_def)
  have "wait_loop (answers resp) k (timeout chan) ?a =
      Some (?a\<lparr>response := resp, waiting := False, xSem := False\<rparr>, k + 1)"
    using a assms(2) by (simp add: wait_loop_step take)
  moreover have "open (?a\<lparr>response := resp, waiting := False, xSem := False\<rparr>)"
    using a by simp
  moreover have "(?a\<lparr>response := resp, waiting := False, xSem := False,
      command_scanner := None\<rparr>) = answered text resp chan"
    using assms(1) by (simp add: armed_def xSemaphoreTake_def answered_def)
  ultimately show ?thesis
    using assms(1,3)
    by (simp add: at_command_fits AT_COMMAND_LENGTH_def at_command'_open resolve_def)
qed

text \<open>
  C8, amended. \<open>at_command\<close> returns null without writing when the text does not fit
  (its length is at least \<open>AT_COMMAND_LENGTH - 1 = 79\<close>). When it fits and the channel is
  not open, it returns null without writing. When it fits and the channel is open, every
  call that returns has written once, the text and a single CR behind it, at most 80
  bytes in all (the transport is then what it was and that write, other tasks not writing
  to it meanwhile); and the call returns when the timeout is not negative. The write is
  made before the wait, whatever the other tasks do and whether the wait ends or not: the
  wait begins on the instance with that write made, and the call is what
  \<open>_at_command\<close> makes of the end of the wait.
\<close>

theorem at_command_bounds:
  "(int AT_COMMAND_LENGTH - 1 \<le> int (length text) \<longrightarrow>
      at_command chan dp text others k = Some (None, chan, k))
   \<and> (length text < AT_COMMAND_LENGTH - 1 \<longrightarrow> \<not> open chan \<longrightarrow>
      at_command chan dp text others k = Some (None, chan, k))
   \<and> (\<forall>r chan' k'. length text < AT_COMMAND_LENGTH - 1 \<longrightarrow> open chan \<longrightarrow>
      (\<forall>j c. xUART (others j c) = xUART c) \<longrightarrow>
      at_command chan dp text others k = Some (r, chan', k') \<longrightarrow>
        xUART chan' = xUART chan @ [text @ [CR]]
        \<and> length (text @ [CR]) \<le> AT_COMMAND_LENGTH)
   \<and> (length text < AT_COMMAND_LENGTH - 1 \<longrightarrow> open chan \<longrightarrow> 0 \<le> timeout chan \<longrightarrow>
      (\<exists>r chan' k'. at_command chan dp text others k = Some (r, chan', k')))
   \<and> (length text < AT_COMMAND_LENGTH - 1 \<longrightarrow> open chan \<longrightarrow>
      xUART (armed chan dp (text @ [CR]) (length text + 1)) = xUART chan @ [text @ [CR]]
      \<and> at_command chan dp text others k =
          (case wait_loop others k (timeout chan) (armed chan dp (text @ [CR]) (length text + 1)) of
             None \<Rightarrow> None
           | Some (w, k') \<Rightarrow> Some (fst (resolve w), snd (resolve w), k')))"
proof (intro conjI impI allI)
  assume "int AT_COMMAND_LENGTH - 1 \<le> int (length text)"
  then show "at_command chan dp text others k = Some (None, chan, k)"
    by (rule at_command_too_long)
next
  assume fits: "length text < AT_COMMAND_LENGTH - 1" and o: "open chan"
  show "xUART (armed chan dp (text @ [CR]) (length text + 1)) = xUART chan @ [text @ [CR]]"
    by (simp add: armed_fields)
  show "at_command chan dp text others k =
      (case wait_loop others k (timeout chan) (armed chan dp (text @ [CR]) (length text + 1)) of
         None \<Rightarrow> None
       | Some (w, k') \<Rightarrow> Some (fst (resolve w), snd (resolve w), k'))"
    by (simp only: at_command_fits [OF fits] at_command'_open [OF o])
next
  assume "length text < AT_COMMAND_LENGTH - 1" "\<not> open chan"
  then show "at_command chan dp text others k = Some (None, chan, k)"
    by (simp add: at_command_fits at_command'_closed)
next
  fix r chan' k'
  assume fits: "length text < AT_COMMAND_LENGTH - 1" and o: "open chan"
    and frame: "\<forall>j c. xUART (others j c) = xUART c"
    and run: "at_command chan dp text others k = Some (r, chan', k')"
  let ?a = "armed chan dp (text @ [CR]) (length text + 1)"
  from run obtain w where w: "wait_loop others k (timeout chan) ?a = Some (w, k')"
    and chan': "chan' = snd (resolve w)"
    by (auto simp: at_command_fits [OF fits] at_command'_open [OF o] split: option.splits)
  have "xUART (fst (w, k')) = xUART ?a"
    using frame by (intro wait_loop_xUART [OF w]) simp
  then show "xUART chan' = xUART chan @ [text @ [CR]]"
    by (simp add: chan' resolve_facts armed_fields)
  show "length (text @ [CR]) \<le> AT_COMMAND_LENGTH"
    using fits by simp
next
  assume fits: "length text < AT_COMMAND_LENGTH - 1" and o: "open chan"
    and t: "0 \<le> timeout chan"
  let ?a = "armed chan dp (text @ [CR]) (length text + 1)"
  obtain w k' where w: "wait_loop others k (timeout chan) ?a = Some (w, k')"
    using wait_loop_returns [OF t] by blast
  then show "\<exists>r chan' k'. at_command chan dp text others k = Some (r, chan', k')"
    by (simp add: at_command_fits [OF fits] at_command'_open [OF o])
qed

text \<open>
  C8, as stated, fails on a closed channel: the text fits and nothing is written.
\<close>

theorem at_command_closed_counterexample:
  "length ''AT'' < AT_COMMAND_LENGTH - 1
   \<and> map_option (xUART \<circ> fst \<circ> snd) (at_command closed_channel False ''AT'' quiet 0) = Some []
   \<and> map_option fst (at_command closed_channel False ''AT'' quiet 0) = Some None"
  by (simp add: channel_eval)

theorem at_command_bounds_witness:
  "int AT_COMMAND_LENGTH - 1 \<le> int (length long_text)
   \<and> at_command new_channel False long_text quiet 0 = Some (None, new_channel, 0)
   \<and> length ''AT'' < AT_COMMAND_LENGTH - 1 \<and> \<not> open closed_channel
   \<and> at_command closed_channel False ''AT'' quiet 0 = Some (None, closed_channel, 0)
   \<and> open new_channel \<and> 0 \<le> timeout new_channel
   \<and> (\<forall>j c. xUART (quiet j c) = xUART c)
   \<and> (\<exists>r chan' k'. at_command new_channel False ''AT'' quiet 0 = Some (r, chan', k')
         \<and> xUART chan' = [[CHR ''A'', CHR ''T'', CR]])
   \<and> open unbounded_channel \<and> timeout unbounded_channel < 0
   \<and> (\<forall>j c. xUART (answers ''OK'' j c) = xUART c)
   \<and> at_command unbounded_channel False ''AT'' (answers ''OK'') 0
       = Some (Some ''OK'', answered ''AT'' ''OK'' unbounded_channel, 1)
   \<and> xUART (answered ''AT'' ''OK'' unbounded_channel) = [[CHR ''A'', CHR ''T'', CR]]
   \<and> length (''AT'' @ [CR]) \<le> AT_COMMAND_LENGTH"
proof -
  have h: "int AT_COMMAND_LENGTH - 1 \<le> int (length long_text)"
    "length ''AT'' < AT_COMMAND_LENGTH - 1" "\<not> open closed_channel"
    "open new_channel" "0 \<le> timeout new_channel" "\<forall>j c. xUART (quiet j c) = xUART c"
    "xUART new_channel @ [''AT'' @ [CR]] = [[CHR ''A'', CHR ''T'', CR]]"
    by (simp_all add: channel_eval long_text_def)
  have u: "open unbounded_channel" "timeout unbounded_channel < 0"
    "\<forall>j c. xUART (answers ''OK'' j c) = xUART c"
    "xUART unbounded_channel @ [''AT'' @ [CR]] = [[CHR ''A'', CHR ''T'', CR]]"
    by (simp_all add: channel_eval unbounded_channel_def)
  have run: "at_command unbounded_channel False ''AT'' (answers ''OK'') 0
      = Some (Some ''OK'', answered ''AT'' ''OK'' unbounded_channel, 1)"
    using at_command_answered [of unbounded_channel "''AT''" "''OK''" 0] u(1,2) by simp
  have 1: "at_command new_channel False long_text quiet 0 = Some (None, new_channel, 0)"
    using at_command_bounds [of long_text new_channel False quiet 0] h by blast
  have 2: "at_command closed_channel False ''AT'' quiet 0 = Some (None, closed_channel, 0)"
    using at_command_bounds [of "''AT''" closed_channel False quiet 0] h by blast
  obtain r chan' k' where 3: "at_command new_channel False ''AT'' quiet 0 = Some (r, chan', k')"
    using at_command_bounds [of "''AT''" new_channel False quiet 0] h by blast
  have 4: "xUART chan' = [[CHR ''A'', CHR ''T'', CR]]"
    using at_command_bounds [of "''AT''" new_channel False quiet 0] h 3 by auto
  have 5: "xUART (answered ''AT'' ''OK'' unbounded_channel) = [[CHR ''A'', CHR ''T'', CR]]"
    "length (''AT'' @ [CR]) \<le> AT_COMMAND_LENGTH"
    using at_command_bounds [of "''AT''" unbounded_channel False "answers ''OK''" 0] h u run
    by auto
  show ?thesis
    using h u run 1 2 3 4 5 by simp
qed

lemma at_config_loop_facts:
  assumes set: "at_command chan dp (''AT+'' @ opt @ ''='' @ val) others k = Some (r1, chan1, k1)"
    and query: "at_command chan1 dp (''AT+'' @ opt @ ''?'') others k1 = Some (r2, chan2, k2)"
  shows "r2 = None \<Longrightarrow>
      at_config_loop chan dp opt val (Suc n) others k = Some (- 2, chan2, k2)"
    and "r2 = Some resp \<Longrightarrow> 32 \<le> length (''+'' @ opt @ '': '' @ val) \<Longrightarrow>
      at_config_loop chan dp opt val (Suc n) others k = Some (- 1, chan2, k2)"
    and "r2 = Some resp \<Longrightarrow> length (''+'' @ opt @ '': '' @ val) < 32 \<Longrightarrow>
      NUL \<notin> set opt \<union> set val \<Longrightarrow> prefix (''+'' @ opt @ '': '' @ val) resp \<Longrightarrow>
      at_config_loop chan dp opt val (Suc n) others k = Some (0, chan2, k2)"
    and "r2 = Some resp \<Longrightarrow> length (''+'' @ opt @ '': '' @ val) < 32 \<Longrightarrow>
      NUL \<notin> set opt \<union> set val \<Longrightarrow> \<not> prefix (''+'' @ opt @ '': '' @ val) resp \<Longrightarrow>
      at_config_loop chan dp opt val (Suc n) others k =
        at_config_loop (others k2 chan2) dp opt val n others (k2 + 1)"
proof -
  have nul: "NUL \<notin> set (''+'' @ opt @ '': '' @ val)" if "NUL \<notin> set opt \<union> set val"
    using that by (simp add: NUL_def)
  show "r2 = None \<Longrightarrow>
      at_config_loop chan dp opt val (Suc n) others k = Some (- 2, chan2, k2)"
    using set query by simp
  show "r2 = Some resp \<Longrightarrow> 32 \<le> length (''+'' @ opt @ '': '' @ val) \<Longrightarrow>
      at_config_loop chan dp opt val (Suc n) others k = Some (- 1, chan2, k2)"
    using set query by (simp add: Let_def)
  show "r2 = Some resp \<Longrightarrow> length (''+'' @ opt @ '': '' @ val) < 32 \<Longrightarrow>
      NUL \<notin> set opt \<union> set val \<Longrightarrow> prefix (''+'' @ opt @ '': '' @ val) resp \<Longrightarrow>
      at_config_loop chan dp opt val (Suc n) others k = Some (0, chan2, k2)"
    using set query strncmp_prefix [OF nul, of resp]
    by (simp add: Let_def del: strncmp.simps)
  show "r2 = Some resp \<Longrightarrow> length (''+'' @ opt @ '': '' @ val) < 32 \<Longrightarrow>
      NUL \<notin> set opt \<union> set val \<Longrightarrow> \<not> prefix (''+'' @ opt @ '': '' @ val) resp \<Longrightarrow>
      at_config_loop chan dp opt val (Suc n) others k =
        at_config_loop (others k2 chan2) dp opt val n others (k2 + 1)"
    using set query strncmp_prefix [OF nul, of resp]
    by (simp add: Let_def del: strncmp.simps)
qed

lemma at_config_loop_codes:
  "at_config_loop chan dp opt val n others k = Some (res, chan', k') \<Longrightarrow>
     (res = - 2 \<or> res = - 1 \<or> res = 0) \<and>
     (res = - 1 \<longrightarrow> 32 \<le> length (''+'' @ opt @ '': '' @ val)) \<and>
     (32 \<le> length (''+'' @ opt @ '': '' @ val) \<longrightarrow> 0 < n \<longrightarrow> res \<noteq> 0)"
proof (induction n arbitrary: chan k)
  case 0
  then show ?case by simp
next
  case (Suc n)
  from Suc.prems obtain r1 c1 k1 where
    set: "at_command chan dp (''AT+'' @ opt @ ''='' @ val) others k = Some (r1, c1, k1)"
    by (auto split: option.splits)
  from Suc.prems set obtain r2 c2 k2 where
    query: "at_command c1 dp (''AT+'' @ opt @ ''?'') others k1 = Some (r2, c2, k2)"
    by (auto split: option.splits)
  show ?case
  proof (cases r2)
    case None
    with Suc.prems set query show ?thesis by simp
  next
    case (Some resp)
    show ?thesis
    proof (cases "32 \<le> length (''+'' @ opt @ '': '' @ val)")
      case True
      with Suc.prems set query Some show ?thesis by (simp add: Let_def)
    next
      case False
      show ?thesis
      proof (cases "strncmp (c_str resp) (''+'' @ opt @ '': '' @ val)
                      (length (''+'' @ opt @ '': '' @ val)) = 0")
        case True
        with Suc.prems set query Some False show ?thesis
          by (simp add: Let_def del: strncmp.simps)
      next
        case nomatch: False
        with Suc.prems set query Some False have
          "at_config_loop (others k2 c2) dp opt val n others (k2 + 1) = Some (res, chan', k')"
          by (simp add: Let_def del: strncmp.simps)
        from Suc.IH [OF this] False show ?thesis by auto
      qed
    qed
  qed
qed

text \<open>
  C7. With at least one attempt, when the two commands of the first attempt return:
  \<open>at_config\<close> returns \<open>-2\<close> when the query returned null; else \<open>-1\<close> when the expected
  response \<open>+opt: val\<close> does not fit its 32 bytes; else 0 when the response begins with the
  expected response; else it goes on with one attempt less, after a delay. With no
  attempt left it returns 0. Whatever the attempts, a result is \<open>-2\<close>, \<open>-1\<close> or 0; it is
  \<open>-1\<close> only when the expected response does not fit, and then it is never 0.
\<close>

theorem at_config_result_codes:
  assumes "1 \<le> attempts"
    and set: "at_command chan dp (''AT+'' @ opt @ ''='' @ val) others k = Some (r1, chan1, k1)"
    and query: "at_command chan1 dp (''AT+'' @ opt @ ''?'') others k1 = Some (r2, chan2, k2)"
  shows "(r2 = None \<longrightarrow> at_config chan dp opt val attempts others k = Some (- 2, chan2, k2))
    \<and> (r2 \<noteq> None \<longrightarrow> 32 \<le> length (''+'' @ opt @ '': '' @ val) \<longrightarrow>
          at_config chan dp opt val attempts others k = Some (- 1, chan2, k2))
    \<and> (\<forall>resp. r2 = Some resp \<longrightarrow> length (''+'' @ opt @ '': '' @ val) < 32 \<longrightarrow>
          NUL \<notin> set opt \<union> set val \<longrightarrow> prefix (''+'' @ opt @ '': '' @ val) resp \<longrightarrow>
          at_config chan dp opt val attempts others k = Some (0, chan2, k2))
    \<and> (\<forall>resp. r2 = Some resp \<longrightarrow> length (''+'' @ opt @ '': '' @ val) < 32 \<longrightarrow>
          NUL \<notin> set opt \<union> set val \<longrightarrow> \<not> prefix (''+'' @ opt @ '': '' @ val) resp \<longrightarrow>
          at_config chan dp opt val attempts others k =
            at_config (others k2 chan2) dp opt val (attempts - 1) others (k2 + 1))
    \<and> at_config chan' dp opt val 0 others k' = Some (0, chan', k')
    \<and> (\<forall>res chan'' k''.
          at_config chan dp opt val attempts others k = Some (res, chan'', k'') \<longrightarrow>
          (res = - 2 \<or> res = - 1 \<or> res = 0)
          \<and> (res = - 1 \<longrightarrow> 32 \<le> length (''+'' @ opt @ '': '' @ val))
          \<and> (32 \<le> length (''+'' @ opt @ '': '' @ val) \<longrightarrow> res \<noteq> 0))"
proof -
  from \<open>1 \<le> attempts\<close> obtain n where n: "nat attempts = Suc n" "nat (attempts - 1) = n"
    by (metis Suc_nat_eq_nat_zadd1 add.commute diff_add_cancel diff_ge_0_iff_ge)
  note facts = at_config_loop_facts [OF set query, where n = n]
  have codes: "(res = - 2 \<or> res = - 1 \<or> res = 0)
          \<and> (res = - 1 \<longrightarrow> 32 \<le> length (''+'' @ opt @ '': '' @ val))
          \<and> (32 \<le> length (''+'' @ opt @ '': '' @ val) \<longrightarrow> res \<noteq> 0)"
    if "at_config chan dp opt val attempts others k = Some (res, chan'', k'')"
    for res chan'' k''
    using at_config_loop_codes [of chan dp opt val "Suc n" others k res chan'' k''] that
    by (simp add: at_config_def n del: at_config_loop.simps(2))
  have "(r2 = None \<longrightarrow> at_config chan dp opt val attempts others k = Some (- 2, chan2, k2))
    \<and> (r2 \<noteq> None \<longrightarrow> 32 \<le> length (''+'' @ opt @ '': '' @ val) \<longrightarrow>
          at_config chan dp opt val attempts others k = Some (- 1, chan2, k2))
    \<and> (\<forall>resp. r2 = Some resp \<longrightarrow> length (''+'' @ opt @ '': '' @ val) < 32 \<longrightarrow>
          NUL \<notin> set opt \<union> set val \<longrightarrow> prefix (''+'' @ opt @ '': '' @ val) resp \<longrightarrow>
          at_config chan dp opt val attempts others k = Some (0, chan2, k2))
    \<and> (\<forall>resp. r2 = Some resp \<longrightarrow> length (''+'' @ opt @ '': '' @ val) < 32 \<longrightarrow>
          NUL \<notin> set opt \<union> set val \<longrightarrow> \<not> prefix (''+'' @ opt @ '': '' @ val) resp \<longrightarrow>
          at_config chan dp opt val attempts others k =
            at_config (others k2 chan2) dp opt val (attempts - 1) others (k2 + 1))
    \<and> at_config chan' dp opt val 0 others k' = Some (0, chan', k')"
    unfolding at_config_def n
    using facts by (auto simp del: at_config_loop.simps(2))
  with codes show ?thesis by blast
qed

lemma answered_fields [simp]:
  "open (answered text resp chan) = open chan"
  "timeout (answered text resp chan) = timeout chan"
  by (simp_all add: answered_def)

theorem at_config_result_codes_witness:
  "at_config new_channel False ''CREG'' ''2'' 3 (answers ''+CREG: 2,1'') 0
     = Some (0, answered ''AT+CREG?'' ''+CREG: 2,1''
                  (answered ''AT+CREG=2'' ''+CREG: 2,1'' new_channel), 2)
   \<and> at_config closed_channel False ''CREG'' ''2'' 3 quiet 0 = Some (- 2, closed_channel, 0)
   \<and> at_config new_channel False long_option ''2'' 3 (answers ''OK'') 0
     = Some (- 1, answered (''AT+'' @ long_option @ ''?'') ''OK''
                  (answered (''AT+'' @ long_option @ ''=2'') ''OK'' new_channel), 2)
   \<and> at_config new_channel False ''CREG'' ''2'' 1 (answers ''+CREG: 1,1'') 0
     = Some (0, answers ''+CREG: 1,1'' 2 (answered ''AT+CREG?'' ''+CREG: 1,1''
                  (answered ''AT+CREG=2'' ''+CREG: 1,1'' new_channel)), 3)"
proof -
  have o: "open new_channel" "timeout new_channel \<noteq> 0" "\<not> open closed_channel"
    by (simp_all add: channel_eval)
  have one: "(1::int) \<le> 3" "(1::int) \<le> 1" by simp_all
  have nul: "NUL \<notin> set ''CREG'' \<union> set ''2''" by (simp add: NUL_def)
  \<comment> \<open>the setting is confirmed\<close>
  have s1: "at_command new_channel False (''AT+'' @ ''CREG'' @ ''='' @ ''2'') (answers ''+CREG: 2,1'') 0
      = Some (Some ''+CREG: 2,1'', answered ''AT+CREG=2'' ''+CREG: 2,1'' new_channel, 1)"
    using at_command_answered [OF o(1,2), of "''AT+CREG=2''" "''+CREG: 2,1''" 0] by simp
  have q1: "at_command (answered ''AT+CREG=2'' ''+CREG: 2,1'' new_channel) False
        (''AT+'' @ ''CREG'' @ ''?'') (answers ''+CREG: 2,1'') 1
      = Some (Some ''+CREG: 2,1'', answered ''AT+CREG?'' ''+CREG: 2,1''
                  (answered ''AT+CREG=2'' ''+CREG: 2,1'' new_channel), 2)"
    using at_command_answered [of "answered ''AT+CREG=2'' ''+CREG: 2,1'' new_channel"
        "''AT+CREG?''" "''+CREG: 2,1''" 1] o
    by simp
  have a: "at_config new_channel False ''CREG'' ''2'' 3 (answers ''+CREG: 2,1'') 0
     = Some (0, answered ''AT+CREG?'' ''+CREG: 2,1''
                  (answered ''AT+CREG=2'' ''+CREG: 2,1'' new_channel), 2)"
    using at_config_result_codes [OF one(1) s1 q1] nul by simp
  \<comment> \<open>the channel is closed\<close>
  have s2: "at_command closed_channel False (''AT+'' @ ''CREG'' @ ''='' @ ''2'') quiet 0
      = Some (None, closed_channel, 0)"
    and q2: "at_command closed_channel False (''AT+'' @ ''CREG'' @ ''?'') quiet 0
      = Some (None, closed_channel, 0)"
    using o(3) by (simp_all add: at_command_fits AT_COMMAND_LENGTH_def at_command'_closed)
  have b: "at_config closed_channel False ''CREG'' ''2'' 3 quiet 0 = Some (- 2, closed_channel, 0)"
    using at_config_result_codes [OF one(1) s2 q2] by simp
  \<comment> \<open>the expected response does not fit\<close>
  have s3: "at_command new_channel False (''AT+'' @ long_option @ ''='' @ ''2'') (answers ''OK'') 0
      = Some (Some ''OK'', answered (''AT+'' @ long_option @ ''=2'') ''OK'' new_channel, 1)"
    using at_command_answered [OF o(1,2), of "''AT+'' @ long_option @ ''=2''" "''OK''" 0]
    by (simp add: long_option_def)
  have q3: "at_command (answered (''AT+'' @ long_option @ ''=2'') ''OK'' new_channel) False
        (''AT+'' @ long_option @ ''?'') (answers ''OK'') 1
      = Some (Some ''OK'', answered (''AT+'' @ long_option @ ''?'') ''OK''
                  (answered (''AT+'' @ long_option @ ''=2'') ''OK'' new_channel), 2)"
    using at_command_answered [of "answered (''AT+'' @ long_option @ ''=2'') ''OK'' new_channel"
        "''AT+'' @ long_option @ ''?''" "''OK''" 1] o
    by (simp add: long_option_def)
  have c: "at_config new_channel False long_option ''2'' 3 (answers ''OK'') 0
     = Some (- 1, answered (''AT+'' @ long_option @ ''?'') ''OK''
                  (answered (''AT+'' @ long_option @ ''=2'') ''OK'' new_channel), 2)"
    using at_config_result_codes [OF one(1) s3 q3] by (simp add: long_option_def)
  \<comment> \<open>the attempts are exhausted\<close>
  have s4: "at_command new_channel False (''AT+'' @ ''CREG'' @ ''='' @ ''2'') (answers ''+CREG: 1,1'') 0
      = Some (Some ''+CREG: 1,1'', answered ''AT+CREG=2'' ''+CREG: 1,1'' new_channel, 1)"
    using at_command_answered [OF o(1,2), of "''AT+CREG=2''" "''+CREG: 1,1''" 0] by simp
  have q4: "at_command (answered ''AT+CREG=2'' ''+CREG: 1,1'' new_channel) False
        (''AT+'' @ ''CREG'' @ ''?'') (answers ''+CREG: 1,1'') 1
      = Some (Some ''+CREG: 1,1'', answered ''AT+CREG?'' ''+CREG: 1,1''
                  (answered ''AT+CREG=2'' ''+CREG: 1,1'' new_channel), 2)"
    using at_command_answered [of "answered ''AT+CREG=2'' ''+CREG: 1,1'' new_channel"
        "''AT+CREG?''" "''+CREG: 1,1''" 1] o
    by simp
  have d: "at_config new_channel False ''CREG'' ''2'' 1 (answers ''+CREG: 1,1'') 0
     = Some (0, answers ''+CREG: 1,1'' 2 (answered ''AT+CREG?'' ''+CREG: 1,1''
                  (answered ''AT+CREG=2'' ''+CREG: 1,1'' new_channel)), 3)"
    using at_config_result_codes [OF one(2) s4 q4,
        of "answers ''+CREG: 1,1'' 2 (answered ''AT+CREG?'' ''+CREG: 1,1''
                  (answered ''AT+CREG=2'' ''+CREG: 1,1'' new_channel))" 3] nul
    by simp
  show ?thesis using a b c d by simp
qed

end
